theory Spec2Isabelle
  imports
    Complex_Main
    "HOL-Library.Log_Nat"
    "HOL-Library.Multiset"
    "HOL-Library.Char_ord"
    "HOL-Library.List_Lexorder"
begin

section \<open>JavaScript values\<close>

text \<open>
  The normalizers of \<^verbatim>\<open>frontend/src/App.js\<close> receive whatever the backend's JSON
  decodes to.  A JavaScript number is an IEEE binary64 value: a finite value is kept as
  the rational it denotes, next to the two infinities and NaN.  The two zeros are
  identified (they are equal under \<^verbatim>\<open>===\<close>, both are falsy, and the source never
  divides by a zero).
\<close>

datatype jsnum = Fin rat | PInf | NInf | NaN

text \<open>
  A string is the list of its code units; \<^verbatim>\<open>slice\<close> and the relational operators
  work on code units, as \<^const>\<open>take\<close> and the lexicographic order do on lists.
  An object is the association list of its own properties (the first binding of a key
  is the one in force).
\<close>

datatype jsval =
    JUndefined
  | JNull
  | JBool bool
  | JNum jsnum
  | JStr string
  | JArr "jsval list"
  | JObj "(string \<times> jsval) list"

datatype error = TypeError | RangeError

section \<open>Binary64 arithmetic\<close>

definition round_half_even :: "rat \<Rightarrow> int" where
  "round_half_even q =
     (let f = \<lfloor>q\<rfloor>; d = q - of_int f
      in if d < 1 / 2 then f
         else if 1 / 2 < d then f + 1
         else if even f then f else f + 1)"

text \<open>\<open>binade a\<close> is the exponent \<open>e\<close> with \<open>2^e \<le> a < 2^(e+1)\<close>, for \<open>a > 0\<close>.\<close>

definition binade :: "rat \<Rightarrow> int" where
  "binade a =
     (let (p, q) = quotient_of a; e0 = bitlen p - bitlen q
      in if 2 powi e0 \<le> a then e0 else e0 - 1)"

text \<open>
  Rounding of an exact result to the nearest binary64 value, ties to even: 53 bits of
  significand, the smallest exponent -1022 (below it the spacing stays \<open>2^-1074\<close>),
  and overflow to an infinity from \<open>2^1024\<close> on.
\<close>

definition round_double :: "rat \<Rightarrow> jsnum" where
  "round_double q =
     (if q = 0 then Fin 0
      else
        let a = \<bar>q\<bar>;
            e = max (binade a) (- 1022);
            u = 2 powi (e - 52);
            r = of_int (round_half_even (a / u)) * u
        in if 2 ^ 1024 \<le> r then (if 0 < q then PInf else NInf)
           else Fin (if 0 < q then r else - r))"

definition is_double :: "rat \<Rightarrow> bool" where
  "is_double q \<longleftrightarrow> round_double q = Fin q"

fun js_neg :: "jsnum \<Rightarrow> jsnum" where
  "js_neg (Fin a) = Fin (- a)"
| "js_neg PInf = NInf"
| "js_neg NInf = PInf"
| "js_neg NaN = NaN"

text \<open>The operator \<^verbatim>\<open>+\<close> on two numbers.\<close>

fun js_add :: "jsnum \<Rightarrow> jsnum \<Rightarrow> jsnum" where
  "js_add (Fin a) (Fin b) = round_double (a + b)"
| "js_add NaN _ = NaN"
| "js_add _ NaN = NaN"
| "js_add PInf NInf = NaN"
| "js_add NInf PInf = NaN"
| "js_add PInf _ = PInf"
| "js_add NInf _ = NInf"
| "js_add _ PInf = PInf"
| "js_add _ NInf = NInf"

text \<open>The operator \<^verbatim>\<open>*\<close>.\<close>

fun js_mul :: "jsnum \<Rightarrow> jsnum \<Rightarrow> jsnum" where
  "js_mul (Fin a) (Fin b) = round_double (a * b)"
| "js_mul NaN _ = NaN"
| "js_mul _ NaN = NaN"
| "js_mul (Fin a) PInf = (if a = 0 then NaN else if 0 < a then PInf else NInf)"
| "js_mul (Fin a) NInf = (if a = 0 then NaN else if 0 < a then NInf else PInf)"
| "js_mul PInf (Fin b) = (if b = 0 then NaN else if 0 < b then PInf else NInf)"
| "js_mul NInf (Fin b) = (if b = 0 then NaN else if 0 < b then NInf else PInf)"
| "js_mul PInf PInf = PInf"
| "js_mul NInf NInf = PInf"
| "js_mul PInf NInf = NInf"
| "js_mul NInf PInf = NInf"

text \<open>The operator \<^verbatim>\<open>/\<close>; a zero divisor counts as \<open>+0\<close>.\<close>

fun js_div :: "jsnum \<Rightarrow> jsnum \<Rightarrow> jsnum" where
  "js_div (Fin a) (Fin b) =
     (if b = 0 then (if a = 0 then NaN else if 0 < a then PInf else NInf)
      else round_double (a / b))"
| "js_div NaN _ = NaN"
| "js_div _ NaN = NaN"
| "js_div (Fin a) _ = Fin 0"
| "js_div PInf (Fin b) = (if 0 \<le> b then PInf else NInf)"
| "js_div NInf (Fin b) = (if 0 \<le> b then NInf else PInf)"
| "js_div _ _ = NaN"

text \<open>The test \<^verbatim>\<open>x > 0\<close>.\<close>

fun js_pos :: "jsnum \<Rightarrow> bool" where
  "js_pos (Fin a) = (0 < a)"
| "js_pos PInf = True"
| "js_pos _ = False"

text \<open>\<^verbatim>\<open>Number.isFinite\<close> on a number.\<close>

fun isFinite_num :: "jsnum \<Rightarrow> bool" where
  "isFinite_num (Fin a) = True"
| "isFinite_num _ = False"

text \<open>
  \<^verbatim>\<open>+(x).toFixed(1)\<close>: \<^verbatim>\<open>toFixed(1)\<close> prints the decimal with one fraction digit
  nearest to the exact value of \<open>x\<close>, the larger magnitude on a tie; from \<open>10^21\<close> on
  it prints \<open>x\<close> in full, and NaN and the infinities print as themselves.  The unary
  plus reads the decimal back as the nearest binary64 value.
\<close>

fun round1 :: "jsnum \<Rightarrow> jsnum" where
  "round1 (Fin a) =
     (if 10 ^ 21 \<le> \<bar>a\<bar> then Fin a
      else
        let t = of_int \<lfloor>\<bar>a\<bar> * 10 + 1 / 2\<rfloor> / 10
        in round_double (if a < 0 then - t else t))"
| "round1 x = x"

section \<open>Coercions and property access\<close>

text \<open>Truthiness, as \<^verbatim>\<open>d ? _ : _\<close>, \<^verbatim>\<open>!d\<close>, \<^verbatim>\<open>a && b\<close> and \<^verbatim>\<open>a || b\<close> test it.\<close>

fun truthy :: "jsval \<Rightarrow> bool" where
  "truthy JUndefined = False"
| "truthy JNull = False"
| "truthy (JBool b) = b"
| "truthy (JNum (Fin a)) = (a \<noteq> 0)"
| "truthy (JNum NaN) = False"
| "truthy (JNum _) = True"
| "truthy (JStr s) = (s \<noteq> [])"
| "truthy (JArr _) = True"
| "truthy (JObj _) = True"

text \<open>\<^verbatim>\<open>v == null\<close>, the test behind \<^verbatim>\<open>?.\<close>, \<^verbatim>\<open>??\<close> and \<^verbatim>\<open>!= null\<close>.\<close>

fun nullish :: "jsval \<Rightarrow> bool" where
  "nullish JUndefined = True"
| "nullish JNull = True"
| "nullish _ = False"

text \<open>
  \<^verbatim>\<open>r?.k\<close> for one of the field names the normalizers read: \<^verbatim>\<open>undefined\<close> on
  \<^verbatim>\<open>null\<close> and \<^verbatim>\<open>undefined\<close>, the own property of an object, and
  \<^verbatim>\<open>undefined\<close> on every other value (no prototype defines these names).
\<close>

fun optget :: "jsval \<Rightarrow> string \<Rightarrow> jsval" where
  "optget (JObj kvs) k = (case map_of kvs k of Some v \<Rightarrow> v | None \<Rightarrow> JUndefined)"
| "optget _ k = JUndefined"

text \<open>\<^verbatim>\<open>a.k\<close> on a record: a \<^verbatim>\<open>TypeError\<close> on \<^verbatim>\<open>null\<close> and \<^verbatim>\<open>undefined\<close>.\<close>

definition getprop :: "jsval \<Rightarrow> string \<Rightarrow> error + jsval" where
  "getprop a k = (if nullish a then Inl TypeError else Inr (optget a k))"

text \<open>
  \<^verbatim>\<open>const numOrNull = (v) => (typeof v === "number" && Number.isFinite(v) ? v : null);\<close>
\<close>

text \<open>The result is a number or \<^verbatim>\<open>null\<close>: \<open>None\<close> stands for \<^verbatim>\<open>null\<close>.\<close>

fun numOrNull :: "jsval \<Rightarrow> jsnum option" where
  "numOrNull (JNum x) = (if isFinite_num x then Some x else None)"
| "numOrNull _ = None"

fun of_num :: "jsnum option \<Rightarrow> jsval" where
  "of_num None = JNull"
| "of_num (Some x) = JNum x"

section \<open>What the engine supplies\<close>

text \<open>
  Two built-ins that the source calls are not defined by it and are parameters of the
  model: the conversion of a number to a string (behind \<^verbatim>\<open>String(d)\<close> and the joining
  of an array), and \<^verbatim>\<open>Array.prototype.sort\<close> with a comparison function.
\<close>

record engine =
  number_to_string :: "jsnum \<Rightarrow> string"
  array_sort :: "(jsval \<Rightarrow> jsval \<Rightarrow> int) \<Rightarrow> jsval list \<Rightarrow> jsval list"

text \<open>
  \<^verbatim>\<open>String(v)\<close>.  An array joins the strings of its elements with commas,
  \<^verbatim>\<open>null\<close> and \<^verbatim>\<open>undefined\<close> elements giving the empty string.  A decoded JSON
  object holds no function: when it has an own \<^verbatim>\<open>toString\<close> the conversion finds
  nothing callable that yields a primitive and throws, otherwise the inherited method
  answers \<^verbatim>\<open>[object Object]\<close>.
\<close>

fun to_string :: "engine \<Rightarrow> jsval \<Rightarrow> error + string"
  and join_elems :: "engine \<Rightarrow> jsval list \<Rightarrow> error + string"
  and elem_string :: "engine \<Rightarrow> jsval \<Rightarrow> error + string"
where
  "to_string E JUndefined = Inr ''undefined''"
| "to_string E JNull = Inr ''null''"
| "to_string E (JBool b) = Inr (if b then ''true'' else ''false'')"
| "to_string E (JNum x) = Inr (number_to_string E x)"
| "to_string E (JStr s) = Inr s"
| "to_string E (JArr xs) = join_elems E xs"
| "to_string E (JObj kvs) =
     (if map_of kvs ''toString'' \<noteq> None then Inl TypeError
      else Inr ''[object Object]'')"
| "join_elems E [] = Inr []"
| "join_elems E (x # xs) =
     (case elem_string E x of
        Inl e \<Rightarrow> Inl e
      | Inr s \<Rightarrow>
          (if xs = [] then Inr s
           else case join_elems E xs of
                  Inl e \<Rightarrow> Inl e
                | Inr t \<Rightarrow> Inr (s @ '','' @ t)))"
| "elem_string E JUndefined = Inr []"
| "elem_string E JNull = Inr []"
| "elem_string E v = to_string E v"

section \<open>Helpers of the source\<close>

text \<open>
  \<^verbatim>\<open>const toDay = (d) => (d ? (d.slice?.(0, 10) ?? String(d).slice(0, 10)) : "");\<close>

  A string and an array have a \<^verbatim>\<open>slice\<close> method, which answers the first ten code
  units, respectively elements.  Numbers and booleans have none and go through
  \<^verbatim>\<open>String\<close>.  An object with an own \<^verbatim>\<open>slice\<close> that is neither \<^verbatim>\<open>null\<close> nor
  \<^verbatim>\<open>undefined\<close> has it called, and a decoded JSON value is never callable.
  The result is a string or an array.
\<close>

datatype daykey = DStr string | DArr "jsval list"

fun of_daykey :: "daykey \<Rightarrow> jsval" where
  "of_daykey (DStr s) = JStr s"
| "of_daykey (DArr xs) = JArr xs"

definition string_slice :: "engine \<Rightarrow> jsval \<Rightarrow> error + daykey" where
  "string_slice E d =
     (case to_string E d of Inl e \<Rightarrow> Inl e | Inr s \<Rightarrow> Inr (DStr (take 10 s)))"

fun toDay :: "engine \<Rightarrow> jsval \<Rightarrow> error + daykey" where
  "toDay E (JStr s) = Inr (DStr (take 10 s))"
| "toDay E (JArr xs) = Inr (DArr (take 10 xs))"
| "toDay E (JObj kvs) =
     (case map_of kvs ''slice'' of
        None \<Rightarrow> string_slice E (JObj kvs)
      | Some f \<Rightarrow> if nullish f then string_slice E (JObj kvs) else Inl TypeError)"
| "toDay E d = (if truthy d then string_slice E d else Inr (DStr []))"

text \<open>
  \<^verbatim>\<open>const sortAsc = (arr) => arr.slice().sort((a, b) => (toDay(a.date) > toDay(b.date) ? 1 : -1));\<close>

  The comparison function reads \<^verbatim>\<open>a.date\<close>, applies \<^verbatim>\<open>toDay\<close>, and compares with
  \<^verbatim>\<open>>\<close>, which turns an array into its joined string and compares two strings by
  code units.  It answers 1 or -1, never 0.
\<close>

definition day_text :: "engine \<Rightarrow> daykey \<Rightarrow> error + string" where
  "day_text E k = (case k of DStr s \<Rightarrow> Inr s | DArr xs \<Rightarrow> join_elems E xs)"

definition sort_key :: "engine \<Rightarrow> jsval \<Rightarrow> error + string" where
  "sort_key E a =
     (case getprop a ''date'' of
        Inl e \<Rightarrow> Inl e
      | Inr d \<Rightarrow> (case toDay E d of Inl e \<Rightarrow> Inl e | Inr k \<Rightarrow> day_text E k))"

definition compare_fn :: "engine \<Rightarrow> jsval \<Rightarrow> jsval \<Rightarrow> error + int" where
  "compare_fn E a b =
     (case sort_key E a of
        Inl e \<Rightarrow> Inl e
      | Inr sa \<Rightarrow>
          (case sort_key E b of
             Inl e \<Rightarrow> Inl e
           | Inr sb \<Rightarrow> Inr (if sb < sa then 1 else - 1)))"

definition throws :: "error + 'a \<Rightarrow> bool" where
  "throws r = (case r of Inl e \<Rightarrow> True | Inr v \<Rightarrow> False)"

text \<open>
  \<^verbatim>\<open>sort\<close> moves the \<^verbatim>\<open>undefined\<close> elements behind the others without asking the
  comparison function about them.  Among fewer than two other elements nothing is
  compared; among more, every element meets the comparison function, whose exception
  ends the sort.  The engine is handed the comparison function where it does not throw.
\<close>

definition sortAsc :: "engine \<Rightarrow> jsval list \<Rightarrow> error + jsval list" where
  "sortAsc E arr =
     (let vals = filter (\<lambda>a. a \<noteq> JUndefined) arr;
          undefs = filter (\<lambda>a. a = JUndefined) arr
      in if length vals < 2 then Inr (vals @ undefs)
         else if list_ex (\<lambda>a. throws (sort_key E a)) vals then Inl TypeError
         else Inr (array_sort E
                     (\<lambda>a b. case compare_fn E a b of Inr c \<Rightarrow> c | Inl e \<Rightarrow> 0) vals
                   @ undefs))"

section \<open>The normalizers\<close>

text \<open>
  \<^verbatim>\<open>(rows || []).map(f)\<close>: a falsy \<open>rows\<close> gives the empty array, an array is mapped,
  and any other truthy value has no \<^verbatim>\<open>map\<close> to call.
\<close>

definition rows_of :: "jsval \<Rightarrow> error + jsval list" where
  "rows_of rows =
     (if \<not> truthy rows then Inr []
      else case rows of JArr xs \<Rightarrow> Inr xs | _ \<Rightarrow> Inl TypeError)"

fun map_rows :: "('a \<Rightarrow> error + 'b) \<Rightarrow> 'a list \<Rightarrow> error + 'b list" where
  "map_rows f [] = Inr []"
| "map_rows f (x # xs) =
     (case f x of
        Inl e \<Rightarrow> Inl e
      | Inr y \<Rightarrow> (case map_rows f xs of Inl e \<Rightarrow> Inl e | Inr ys \<Rightarrow> Inr (y # ys)))"

definition normalize :: "engine \<Rightarrow> (jsval \<Rightarrow> error + jsval) \<Rightarrow> jsval \<Rightarrow> error + jsval list" where
  "normalize E f rows =
     (case rows_of rows of
        Inl e \<Rightarrow> Inl e
      | Inr xs \<Rightarrow> (case map_rows f xs of Inl e \<Rightarrow> Inl e | Inr ys \<Rightarrow> sortAsc E ys))"

text \<open>
  \<^verbatim>\<open>steps != null && goal && goal > 0 ? +(100 * steps / goal).toFixed(1) : 0\<close>
  on two results of \<^verbatim>\<open>numOrNull\<close>.
\<close>

definition steps_pct :: "jsnum option \<Rightarrow> jsnum option \<Rightarrow> jsnum" where
  "steps_pct steps goal =
     (case steps of
        None \<Rightarrow> Fin 0
      | Some s \<Rightarrow>
          (case goal of
             None \<Rightarrow> Fin 0
           | Some g \<Rightarrow>
               if truthy (JNum g) \<and> js_pos g
               then round1 (js_div (js_mul (Fin 100) s) g)
               else Fin 0))"

definition normSteps_row :: "engine \<Rightarrow> jsval \<Rightarrow> error + jsval" where
  "normSteps_row E r =
     (let steps = numOrNull (optget r ''steps'');
          goal = numOrNull (optget r ''step_goal'');
          pct = steps_pct steps goal
      in case toDay E (optget r ''date'') of
           Inl e \<Rightarrow> Inl e
         | Inr d \<Rightarrow>
             Inr (JObj [(''date'', of_daykey d),
                        (''steps'', of_num steps),
                        (''step_goal'', of_num goal),
                        (''steps_pct_goal'', JNum pct)]))"

definition normSteps :: "engine \<Rightarrow> jsval \<Rightarrow> error + jsval list" where
  "normSteps E rows = normalize E (normSteps_row E) rows"

definition normStress_row :: "engine \<Rightarrow> jsval \<Rightarrow> error + jsval" where
  "normStress_row E r =
     (case toDay E (optget r ''date'') of
        Inl e \<Rightarrow> Inl e
      | Inr d \<Rightarrow>
          Inr (JObj [(''date'', of_daykey d),
                     (''stress_avg'', of_num (numOrNull (optget r ''stress_avg'')))]))"

definition normStress :: "engine \<Rightarrow> jsval \<Rightarrow> error + jsval list" where
  "normStress E rows = normalize E (normStress_row E) rows"

text \<open>\<^verbatim>\<open>x != null ? +(x / 60).toFixed(1) : null\<close>\<close>

definition to_min :: "jsnum option \<Rightarrow> jsnum option" where
  "to_min x = (case x of None \<Rightarrow> None | Some s \<Rightarrow> Some (round1 (js_div s (Fin 60))))"

text \<open>\<^verbatim>\<open>x ?? 0\<close>\<close>

definition or0 :: "jsnum option \<Rightarrow> jsnum" where
  "or0 x = (case x of None \<Rightarrow> Fin 0 | Some s \<Rightarrow> s)"

text \<open>
  \<^verbatim>\<open>const totalS = (ms ?? 0) + (vs ?? 0);\<close>
  \<^verbatim>\<open>const totalMin = Number.isFinite(totalS) ? +(totalS / 60).toFixed(1) : null;\<close>
\<close>

definition total_seconds :: "jsnum option \<Rightarrow> jsnum option \<Rightarrow> jsnum" where
  "total_seconds ms vs = js_add (or0 ms) (or0 vs)"

definition total_minutes :: "jsnum option \<Rightarrow> jsnum option \<Rightarrow> jsnum option" where
  "total_minutes ms vs =
     (let totalS = total_seconds ms vs
      in if isFinite_num totalS then Some (round1 (js_div totalS (Fin 60))) else None)"

text \<open>
  \<^verbatim>\<open>goalMin && goalMin > 0 && totalMin != null ? +(100 * totalMin / goalMin).toFixed(1) : 0\<close>
\<close>

definition exercise_pct :: "jsnum option \<Rightarrow> jsnum option \<Rightarrow> jsnum" where
  "exercise_pct totalMin goalMin =
     (case goalMin of
        None \<Rightarrow> Fin 0
      | Some g \<Rightarrow>
          if truthy (JNum g) \<and> js_pos g
          then (case totalMin of
                  None \<Rightarrow> Fin 0
                | Some t \<Rightarrow> round1 (js_div (js_mul (Fin 100) t) g))
          else Fin 0)"

definition normExercise_row :: "engine \<Rightarrow> jsval \<Rightarrow> error + jsval" where
  "normExercise_row E r =
     (let ms = numOrNull (optget r ''moderate_activity_seconds'');
          vs = numOrNull (optget r ''vigorous_activity_seconds'');
          goalS = numOrNull (optget r ''intensity_time_goal_seconds'');
          totalMin = total_minutes ms vs;
          goalMin = to_min goalS;
          pct = exercise_pct totalMin goalMin
      in case toDay E (optget r ''date'') of
           Inl e \<Rightarrow> Inl e
         | Inr d \<Rightarrow>
             Inr (JObj [(''date'', of_daykey d),
                        (''moderate_min'', of_num (to_min ms)),
                        (''vigorous_min'', of_num (to_min vs)),
                        (''total_min'', of_num totalMin),
                        (''exercise_pct_goal'', JNum pct),
                        (''distance'', of_num (numOrNull (optget r ''distance''))),
                        (''calories_active'', of_num (numOrNull (optget r ''calories_active''))),
                        (''calories_total'', of_num (numOrNull (optget r ''calories_total'')))]))"

definition normExercise :: "engine \<Rightarrow> jsval \<Rightarrow> error + jsval list" where
  "normExercise E rows = normalize E (normExercise_row E) rows"

definition normSleep_row :: "engine \<Rightarrow> jsval \<Rightarrow> error + jsval" where
  "normSleep_row E r =
     (case toDay E (optget r ''date'') of
        Inl e \<Rightarrow> Inl e
      | Inr d \<Rightarrow>
          Inr (JObj [(''date'', of_daykey d),
                     (''total_sleep_hours'', of_num (numOrNull (optget r ''total_sleep_hours''))),
                     (''deep_sleep_hours'', of_num (numOrNull (optget r ''deep_sleep_hours''))),
                     (''light_sleep_hours'', of_num (numOrNull (optget r ''light_sleep_hours''))),
                     (''rem_sleep_hours'', of_num (numOrNull (optget r ''rem_sleep_hours''))),
                     (''awake_hours'', of_num (numOrNull (optget r ''awake_hours'')))]))"

definition normSleep :: "engine \<Rightarrow> jsval \<Rightarrow> error + jsval list" where
  "normSleep E rows = normalize E (normSleep_row E) rows"

section \<open>Range filter\<close>

text \<open>
  \<^verbatim>\<open>
  const inRange = (dateStr, start, end) => {
    const d = toDay(dateStr);
    const s = toDay(start);
    const e = toDay(end);
    if (!d) return false;
    if (s && d < s) return false;
    return !(e && d > e);
  };
  \<close>
  A result of \<^verbatim>\<open>toDay\<close> is falsy exactly when it is the empty string.  The
  operators \<^verbatim>\<open><\<close> and \<^verbatim>\<open>>\<close> turn an array into its joined string and compare
  two strings by code units.
\<close>

definition js_less :: "engine \<Rightarrow> daykey \<Rightarrow> daykey \<Rightarrow> error + bool" where
  "js_less E a b =
     (case day_text E a of
        Inl x \<Rightarrow> Inl x
      | Inr s \<Rightarrow> (case day_text E b of Inl x \<Rightarrow> Inl x | Inr t \<Rightarrow> Inr (s < t)))"

definition js_greater :: "engine \<Rightarrow> daykey \<Rightarrow> daykey \<Rightarrow> error + bool" where
  "js_greater E a b =
     (case day_text E a of
        Inl x \<Rightarrow> Inl x
      | Inr s \<Rightarrow> (case day_text E b of Inl x \<Rightarrow> Inl x | Inr t \<Rightarrow> Inr (t < s)))"

definition inRange :: "engine \<Rightarrow> jsval \<Rightarrow> jsval \<Rightarrow> jsval \<Rightarrow> error + bool" where
  "inRange E dateStr start end =
     (case toDay E dateStr of
        Inl x \<Rightarrow> Inl x
      | Inr d \<Rightarrow>
     (case toDay E start of
        Inl x \<Rightarrow> Inl x
      | Inr s \<Rightarrow>
     (case toDay E end of
        Inl x \<Rightarrow> Inl x
      | Inr e \<Rightarrow>
          if \<not> truthy (of_daykey d) then Inr False
          else
            (case (if truthy (of_daykey s) then js_less E d s else Inr False) of
               Inl x \<Rightarrow> Inl x
             | Inr before \<Rightarrow>
                 if before then Inr False
                 else if truthy (of_daykey e)
                 then (case js_greater E d e of Inl x \<Rightarrow> Inl x | Inr after \<Rightarrow> Inr (\<not> after))
                 else Inr True))))"

text \<open>\<^verbatim>\<open>arr.filter(p)\<close> with a predicate that may throw.\<close>

fun filter_rows :: "('a \<Rightarrow> error + bool) \<Rightarrow> 'a list \<Rightarrow> error + 'a list" where
  "filter_rows p [] = Inr []"
| "filter_rows p (x # xs) =
     (case p x of
        Inl e \<Rightarrow> Inl e
      | Inr b \<Rightarrow>
          (case filter_rows p xs of
             Inl e \<Rightarrow> Inl e
           | Inr ys \<Rightarrow> Inr (if b then x # ys else ys)))"

subsection \<open>The clock\<close>

text \<open>
  \<^verbatim>\<open>new Date()\<close> reads the time, in milliseconds since the epoch in UTC.  The local
  time zone is known by its offset from UTC, in milliseconds: at a given UTC time, and
  at a given local time (the two directions of the conversion).
\<close>

record clock =
  now :: int
  offset_at_utc :: "int \<Rightarrow> int"
  offset_at_local :: "int \<Rightarrow> int"

definition msPerDay :: int where
  "msPerDay = 86400000"

text \<open>
  \<^verbatim>\<open>cutoff.setDate(cutoff.getDate() - rangeDays)\<close> works on the local time: it keeps
  the local time of day and moves the local calendar day back by \<open>rangeDays\<close> days
  (a day of the month below 1 runs into the earlier months), then converts back to
  UTC.  A time beyond \<open>8.64 * 10^15\<close> milliseconds is no date, and
  \<^verbatim>\<open>toISOString\<close> throws a \<^verbatim>\<open>RangeError\<close> on it.
\<close>

definition setDate_back :: "clock \<Rightarrow> int \<Rightarrow> int" where
  "setDate_back c n =
     (let local = now c + offset_at_utc c (now c);
          moved = local - n * msPerDay
      in moved - offset_at_local c moved)"

text \<open>The civil date of a day number (days since 1970-01-01) in the Gregorian calendar.\<close>

definition civil_of_days :: "int \<Rightarrow> int \<times> int \<times> int" where
  "civil_of_days z0 =
     (let z = z0 + 719468;
          era = z div 146097;
          doe = z - era * 146097;
          yoe = (doe - doe div 1460 + doe div 36524 - doe div 146096) div 365;
          doy = doe - (365 * yoe + yoe div 4 - yoe div 100);
          mp = (5 * doy + 2) div 153;
          d = doy - (153 * mp + 2) div 5 + 1;
          m = (if mp < 10 then mp + 3 else mp - 9);
          y = yoe + era * 400 + (if m \<le> 2 then 1 else 0)
      in (y, m, d))"

definition digit :: "int \<Rightarrow> char" where
  "digit d = ''0123456789'' ! nat (d mod 10)"

text \<open>The last \<open>k\<close> decimal digits of \<open>n\<close>.\<close>

fun pad :: "nat \<Rightarrow> int \<Rightarrow> string" where
  "pad 0 n = []"
| "pad (Suc k) n = pad k (n div 10) @ [digit n]"

text \<open>
  The date part of \<^verbatim>\<open>toISOString()\<close>: the UTC date, the year on four digits, or on
  six digits behind a sign when it is not within 0 to 9999.
\<close>

definition iso_date :: "int \<Rightarrow> string" where
  "iso_date t =
     (let (y, m, d) = civil_of_days (t div msPerDay);
          ys = (if 0 \<le> y \<and> y \<le> 9999 then pad 4 y
                else (if y < 0 then ''-'' else ''+'') @ pad 6 \<bar>y\<bar>)
      in ys @ ''-'' @ pad 2 m @ ''-'' @ pad 2 d)"

text \<open>\<^verbatim>\<open>cutoff.toISOString().slice(0, 10)\<close>\<close>

definition cutISO :: "clock \<Rightarrow> int \<Rightarrow> error + string" where
  "cutISO c n =
     (let t = setDate_back c n
      in if 8640000000000000 < \<bar>t\<bar> then Inl RangeError else Inr (take 10 (iso_date t)))"

subsection \<open>The filter\<close>

text \<open>
  The window is the state of the component: the flag and the two bounds of the custom
  range, and \<open>rangeDays\<close>, which the buttons set to 30, 90, 365 or \<^verbatim>\<open>Infinity\<close>
  (\<open>None\<close>).
\<close>

record window =
  useCustomRange :: bool
  customStart :: string
  customEnd :: string
  rangeDays :: "int option"

text \<open>
  \<^verbatim>\<open>
  const filterByDays = useCallback((arr) => {
    if (!arr?.length) return arr;
    if (useCustomRange && (customStart || customEnd)) {
      return arr.filter((r) => inRange(r?.date, customStart, customEnd));
    }
    if (!isFinite(rangeDays)) return arr; // "All"
    const cutoff = new Date();
    cutoff.setDate(cutoff.getDate() - rangeDays);
    const cutISO = cutoff.toISOString().slice(0, 10);
    return arr.filter((r) => toDay(r?.date) >= cutISO);
  }, [useCustomRange, customStart, customEnd, rangeDays]);
  \<close>
\<close>

definition on_or_after :: "engine \<Rightarrow> string \<Rightarrow> jsval \<Rightarrow> error + bool" where
  "on_or_after E cutoff r =
     (case toDay E (optget r ''date'') of
        Inl x \<Rightarrow> Inl x
      | Inr d \<Rightarrow>
          (case js_less E d (DStr cutoff) of Inl x \<Rightarrow> Inl x | Inr before \<Rightarrow> Inr (\<not> before)))"

definition filterByDays :: "engine \<Rightarrow> clock \<Rightarrow> window \<Rightarrow> jsval list \<Rightarrow> error + jsval list" where
  "filterByDays E c w arr =
     (if arr = [] then Inr arr
      else if useCustomRange w \<and> (truthy (JStr (customStart w)) \<or> truthy (JStr (customEnd w)))
      then filter_rows
             (\<lambda>r. inRange E (optget r ''date'') (JStr (customStart w)) (JStr (customEnd w))) arr
      else
        case rangeDays w of
          None \<Rightarrow> Inr arr
        | Some n \<Rightarrow>
            (case cutISO c n of
               Inl x \<Rightarrow> Inl x
             | Inr cutoff \<Rightarrow> filter_rows (on_or_after E cutoff) arr))"

section \<open>An engine\<close>

text \<open>
  The sort of V8 (Chrome, Node.js) on an array of fewer than 64 elements: it takes the
  longest run at the front, which is descending when the comparison function answers a
  negative number for the second element against the first, and is then reversed in
  place; every further element is put into the sorted front by a binary search that
  goes left on a negative answer and right otherwise.  (A longer array is cut into
  several such runs, which V8 merges; the examples are short.)
\<close>

fun run_length :: "('a \<Rightarrow> 'a \<Rightarrow> int) \<Rightarrow> bool \<Rightarrow> 'a \<Rightarrow> 'a list \<Rightarrow> nat" where
  "run_length cmp desc prev [] = 0"
| "run_length cmp desc prev (x # xs) =
     (let order = cmp x prev
      in if (if desc then 0 \<le> order else order < 0) then 0
         else Suc (run_length cmp desc x xs))"

fun count_and_make_run :: "('a \<Rightarrow> 'a \<Rightarrow> int) \<Rightarrow> 'a list \<Rightarrow> 'a list \<times> nat" where
  "count_and_make_run cmp (x0 # x1 # xs) =
     (let desc = cmp x1 x0 < 0;
          n = 2 + run_length cmp desc x1 xs
      in (if desc then rev (take n (x0 # x1 # xs)) @ drop n (x0 # x1 # xs)
          else x0 # x1 # xs, n))"
| "count_and_make_run cmp xs = (xs, length xs)"

function binary_search :: "('a \<Rightarrow> 'a \<Rightarrow> int) \<Rightarrow> 'a \<Rightarrow> 'a list \<Rightarrow> nat \<Rightarrow> nat \<Rightarrow> nat" where
  "binary_search cmp pivot xs left right =
     (if left < right
      then (let mid = left + (right - left) div 2
            in if cmp pivot (xs ! mid) < 0
               then binary_search cmp pivot xs left mid
               else binary_search cmp pivot xs (mid + 1) right)
      else left)"
  by pat_completeness auto
termination
  by (relation "measure (\<lambda>(cmp, pivot, xs, left, right). right - left)") auto

declare binary_search.simps [simp del]

fun binary_insertion :: "('a \<Rightarrow> 'a \<Rightarrow> int) \<Rightarrow> 'a list \<Rightarrow> 'a list \<Rightarrow> 'a list" where
  "binary_insertion cmp front [] = front"
| "binary_insertion cmp front (pivot # rest) =
     (let k = binary_search cmp pivot front 0 (length front)
      in binary_insertion cmp (take k front @ pivot # drop k front) rest)"

definition v8_sort :: "('a \<Rightarrow> 'a \<Rightarrow> int) \<Rightarrow> 'a list \<Rightarrow> 'a list" where
  "v8_sort cmp xs =
     (if length xs < 2 then xs
      else (let (ys, n) = count_and_make_run cmp xs
            in binary_insertion cmp (take n ys) (drop n ys)))"

text \<open>
  The shape of the source's comparison function over a linear order of keys: 1 when the
  first key is the greater, -1 otherwise.
\<close>

definition by_key :: "('a \<Rightarrow> 'k::linorder) \<Rightarrow> 'a \<Rightarrow> 'a \<Rightarrow> int" where
  "by_key key a b = (if key b < key a then 1 else - 1)"

text \<open>
  The printing of a number (\<^verbatim>\<open>Number::toString\<close>): the shortest decimal that reads back
  as the same binary64 value, the closest one among the shortest; written in full when
  the decimal point falls within 21 digits before or 6 zeros after it, and with an
  exponent otherwise.
\<close>

function digits_of :: "int \<Rightarrow> string" where
  "digits_of n = (if n < 10 then [digit n] else digits_of (n div 10) @ [digit n])"
  by pat_completeness auto
termination
  by (relation "measure (\<lambda>n. nat n)") auto

text \<open>\<open>decade x\<close> is the \<open>n\<close> with \<open>10^(n-1) \<le> x < 10^n\<close>, for \<open>x > 0\<close>.\<close>

definition decade :: "rat \<Rightarrow> int" where
  "decade x =
     (let (p, q) = quotient_of x;
          d = int (length (digits_of p)) - int (length (digits_of q))
      in if 10 powi d \<le> x then d + 1 else d)"

definition round_trips :: "rat \<Rightarrow> rat \<Rightarrow> bool" where
  "round_trips x y \<longleftrightarrow> round_double y = Fin x"

text \<open>
  The digits \<open>s\<close> of the shortest decimal \<open>s * 10^(n-k)\<close> of \<open>k\<close> digits that reads back
  as \<open>x\<close>: of the two \<open>k\<close>-digit neighbours of \<open>x\<close> the closer one that reads back, the
  even one when both are as close.  Seventeen digits always suffice.
\<close>

fun shortest :: "rat \<Rightarrow> int \<Rightarrow> nat \<Rightarrow> nat \<Rightarrow> int \<times> nat" where
  "shortest x n k 0 = (\<lfloor>x / 10 powi (n - int k)\<rfloor>, k)"
| "shortest x n k (Suc fuel) =
     (let scale = 10 powi (n - int k);
          lo = \<lfloor>x / scale\<rfloor>;
          hi = lo + 1;
          below = x - of_int lo * scale;
          above = of_int hi * scale - x
      in if round_trips x (of_int lo * scale) \<and> round_trips x (of_int hi * scale)
         then (if below < above then (lo, k)
               else if above < below then (hi, k)
               else if even lo then (lo, k) else (hi, k))
         else if round_trips x (of_int lo * scale) then (lo, k)
         else if round_trips x (of_int hi * scale) then (hi, k)
         else shortest x n (Suc k) fuel)"

definition strip_zeros :: "string \<Rightarrow> string" where
  "strip_zeros s = rev (dropWhile (\<lambda>c. c = CHR ''0'') (rev s))"

definition print_positive :: "rat \<Rightarrow> string" where
  "print_positive x =
     (let n0 = decade x;
          (s, k0) = shortest x n0 1 17;
          all = digits_of s;
          n = n0 + (int (length all) - int k0);
          ds = strip_zeros all;
          k = int (length ds)
      in if k \<le> n \<and> n \<le> 21 then ds @ replicate (nat (n - k)) (CHR ''0'')
         else if 0 < n \<and> n \<le> 21 then take (nat n) ds @ ''.'' @ drop (nat n) ds
         else if - 6 < n \<and> n \<le> 0 then ''0.'' @ replicate (nat (- n)) (CHR ''0'') @ ds
         else
           (let e = n - 1;
                es = (if e < 0 then ''-'' else ''+'') @ digits_of \<bar>e\<bar>
            in if k = 1 then ds @ ''e'' @ es
               else take 1 ds @ ''.'' @ drop 1 ds @ ''e'' @ es))"

fun print_number :: "jsnum \<Rightarrow> string" where
  "print_number NaN = ''NaN''"
| "print_number PInf = ''Infinity''"
| "print_number NInf = ''-Infinity''"
| "print_number (Fin a) =
     (if a = 0 then ''0''
      else if a < 0 then ''-'' @ print_positive (- a)
      else print_positive a)"

definition v8 :: engine where
  "v8 = \<lparr>number_to_string = print_number, array_sort = v8_sort\<rparr>"

section \<open>The claims' vocabulary\<close>

text \<open>A field of the record a row normalizer answers, when it answers one.\<close>

definition field_of :: "error + jsval \<Rightarrow> string \<Rightarrow> error + jsval" where
  "field_of res k = (case res of Inl e \<Rightarrow> Inl e | Inr v \<Rightarrow> Inr (optget v k))"

text \<open>
  The rounding to one decimal that the code delivers, in words of its own: the multiple
  of one tenth nearest to the exact value, the one of the larger magnitude when two are
  as near, read as a binary64 number; a value from \<open>10^21\<close> on, an infinity and NaN
  stay as they are.
\<close>

definition tenth_rounded :: "jsnum \<Rightarrow> jsnum" where
  "tenth_rounded x =
     (case x of
        Fin q \<Rightarrow>
          if \<bar>q\<bar> < 10 ^ 21
          then round_double (sgn q * of_int (round (\<bar>q\<bar> * 10)) / 10)
          else Fin q
      | _ \<Rightarrow> x)"

text \<open>\<open>t\<close> is the multiple of one tenth nearest to \<open>q\<close>, of the larger magnitude on a tie.\<close>

definition nearest_tenth :: "rat \<Rightarrow> rat \<Rightarrow> bool" where
  "nearest_tenth q t \<longleftrightarrow>
     (\<exists>k::int. t = of_int k / 10)
     \<and> (\<forall>j::int. \<bar>t - q\<bar> \<le> \<bar>of_int j / 10 - q\<bar>)
     \<and> (\<forall>j::int. \<bar>of_int j / 10 - q\<bar> = \<bar>t - q\<bar> \<longrightarrow> \<bar>of_int j / 10\<bar> \<le> \<bar>t\<bar>)"

text \<open>
  The rounding of the specification, \<open>round1(x) = round(x * 10) / 10\<close>, computed in
  binary64 like every other operation; \<open>round\<close> goes to the nearest integer, and a tie
  goes up, to the even neighbour, or away from zero, whichever reading is taken.
\<close>

datatype tie_rule = HalfUp | HalfEven | HalfAway

fun nearest_integer :: "tie_rule \<Rightarrow> rat \<Rightarrow> int" where
  "nearest_integer HalfUp a = \<lfloor>a + 1 / 2\<rfloor>"
| "nearest_integer HalfEven a = round_half_even a"
| "nearest_integer HalfAway a = (if a < 0 then - \<lfloor>- a + 1 / 2\<rfloor> else \<lfloor>a + 1 / 2\<rfloor>)"

fun spec_round :: "tie_rule \<Rightarrow> jsnum \<Rightarrow> jsnum" where
  "spec_round tie (Fin a) = Fin (of_int (nearest_integer tie a))"
| "spec_round tie x = x"

definition spec_round1 :: "tie_rule \<Rightarrow> jsnum \<Rightarrow> jsnum" where
  "spec_round1 tie x = js_div (spec_round tie (js_mul x (Fin 10))) (Fin 10)"

text \<open>
  The derived-percentage rule with the rounding the code delivers:
  \<open>tenth_rounded (100 * numerator / denominator)\<close> when the denominator is present and
  above 0 and the numerator is present, and 0 otherwise.
\<close>

definition pct_rule :: "jsval \<Rightarrow> jsval \<Rightarrow> jsval" where
  "pct_rule numerator denominator =
     (case denominator of
        JNum d \<Rightarrow>
          (if js_pos d
           then (case numerator of
                   JNum n \<Rightarrow> JNum (tenth_rounded (js_div (js_mul (Fin 100) n) d))
                 | _ \<Rightarrow> JNum (Fin 0))
           else JNum (Fin 0))
      | _ \<Rightarrow> JNum (Fin 0))"

text \<open>The same rule with the rounding of the specification.\<close>

definition spec_pct_rule :: "tie_rule \<Rightarrow> jsval \<Rightarrow> jsval \<Rightarrow> jsval" where
  "spec_pct_rule tie numerator denominator =
     (case denominator of
        JNum d \<Rightarrow>
          (if js_pos d
           then (case numerator of
                   JNum n \<Rightarrow> JNum (spec_round1 tie (js_div (js_mul (Fin 100) n) d))
                 | _ \<Rightarrow> JNum (Fin 0))
           else JNum (Fin 0))
      | _ \<Rightarrow> JNum (Fin 0))"

fun not_nan :: "jsnum \<Rightarrow> bool" where
  "not_nan NaN = False"
| "not_nan x = True"

text \<open>
  A raw value as the decoding of JSON yields it: when it is a finite number, it is a
  binary64 value.
\<close>

definition json_number :: "jsval \<Rightarrow> bool" where
  "json_number v = (case v of JNum (Fin q) \<Rightarrow> is_double q | _ \<Rightarrow> True)"

text \<open>
  The minutes of a raw seconds value with the rounding the code delivers: absent when
  the value is absent or not a finite number.
\<close>

definition minutes_of :: "jsval \<Rightarrow> jsval" where
  "minutes_of v =
     (case v of
        JNum (Fin q) \<Rightarrow> JNum (tenth_rounded (js_div (Fin q) (Fin 60)))
      | _ \<Rightarrow> JNull)"

text \<open>A row whose date is the JSON object \<^verbatim>\<open>{"slice": 1}\<close>.\<close>

definition unsliceable_row :: jsval where
  "unsliceable_row = JObj [(''date'', JObj [(''slice'', JNum (Fin 1))])]"

text \<open>Seven steps of a goal of 2000, and 21 seconds of moderate activity.\<close>

definition seven_steps_row :: jsval where
  "seven_steps_row =
     JObj [(''date'', JStr ''2025-06-01''), (''steps'', JNum (Fin 7)),
           (''step_goal'', JNum (Fin 2000))]"

definition short_walk_row :: jsval where
  "short_walk_row =
     JObj [(''date'', JStr ''2025-06-01''), (''moderate_activity_seconds'', JNum (Fin 21))]"

text \<open>The Steps and Exercise scenarios of the specification.\<close>

definition steps_row_example :: jsval where
  "steps_row_example =
     JObj [(''date'', JStr ''2025-06-01''), (''steps'', JNum (Fin 5000)),
           (''step_goal'', JNum (Fin 10000))]"

definition exercise_row_example :: jsval where
  "exercise_row_example =
     JObj [(''date'', JStr ''2025-06-01''),
           (''moderate_activity_seconds'', JNum (Fin 1800)),
           (''vigorous_activity_seconds'', JNum (Fin 600)),
           (''intensity_time_goal_seconds'', JNum (Fin 1500))]"

text \<open>
  The seconds of one side in the specification's words: the value when it is a finite
  number, 0 when it is absent or not numeric.
\<close>

definition seconds_or_0 :: "jsval \<Rightarrow> jsnum" where
  "seconds_or_0 v = (case v of JNum (Fin a) \<Rightarrow> Fin a | _ \<Rightarrow> Fin 0)"

text \<open>A raw value that is a finite number; any other value is absent or non-numeric.\<close>

definition finite_number :: "jsval \<Rightarrow> bool" where
  "finite_number v = (case v of JNum (Fin a) \<Rightarrow> True | _ \<Rightarrow> False)"

text \<open>
  The largest power of two among the binary64 values: JSON writes it
  \<^verbatim>\<open>8.98846567431158e307\<close>.
\<close>

definition big_seconds :: rat where
  "big_seconds = 2 ^ 1023"

definition overflow_row :: jsval where
  "overflow_row =
     JObj [(''moderate_activity_seconds'', JNum (Fin big_seconds)),
           (''vigorous_activity_seconds'', JNum (Fin big_seconds))]"

text \<open>A day without activity seconds, with a goal of 25 minutes.\<close>

definition idle_row :: jsval where
  "idle_row =
     JObj [(''date'', JStr ''2025-06-01''),
           (''moderate_activity_seconds'', JStr ''abc''),
           (''intensity_time_goal_seconds'', JNum (Fin 1500))]"

text \<open>A value that is neither an array nor an object.\<close>

definition scalar :: "jsval \<Rightarrow> bool" where
  "scalar v = (case v of JArr xs \<Rightarrow> False | JObj kvs \<Rightarrow> False | _ \<Rightarrow> True)"

text \<open>Rows whose date is absent or a scalar.\<close>

definition scalar_dates :: "jsval list \<Rightarrow> bool" where
  "scalar_dates xs = list_all (\<lambda>r. scalar (optget r ''date'')) xs"

fun is_string :: "jsval \<Rightarrow> bool" where
  "is_string (JStr s) = True"
| "is_string _ = False"

text \<open>A record whose date is a string.\<close>

definition string_dated :: "jsval \<Rightarrow> bool" where
  "string_dated out \<longleftrightarrow> \<not> nullish out \<and> is_string (optget out ''date'')"

text \<open>A row whose date is the JSON array \<^verbatim>\<open>[2025, 6, 1]\<close>.\<close>

definition array_date_row :: jsval where
  "array_date_row =
     JObj [(''date'', JArr [JNum (Fin 2025), JNum (Fin 6), JNum (Fin 1)]),
           (''steps'', JNum (Fin 5000)), (''step_goal'', JNum (Fin 10000))]"

text \<open>A row with \<^verbatim>\<open>8.98846567431158e307\<close> steps against a goal of one step.\<close>

definition huge_steps_row :: jsval where
  "huge_steps_row =
     JObj [(''date'', JStr ''2025-06-01''), (''steps'', JNum (Fin big_seconds)),
           (''step_goal'', JNum (Fin 1))]"

text \<open>Two normalized Steps records of the same day.\<close>

definition tie_first :: jsval where
  "tie_first =
     JObj [(''date'', JStr ''2025-06-01''), (''steps'', JNum (Fin 1)), (''step_goal'', JNull),
           (''steps_pct_goal'', JNum (Fin 0))]"

definition tie_second :: jsval where
  "tie_second =
     JObj [(''date'', JStr ''2025-06-01''), (''steps'', JNum (Fin 2)), (''step_goal'', JNull),
           (''steps_pct_goal'', JNum (Fin 0))]"

text \<open>The day key of a record: the first ten code units of its date string.\<close>

definition day_key :: "jsval \<Rightarrow> string" where
  "day_key r = (case optget r ''date'' of JStr s \<Rightarrow> take 10 s | _ \<Rightarrow> [])"

text \<open>
  Membership in an explicit range in the specification's words: the date is not empty,
  the start is empty or not after the date, the end is empty or not before it.
\<close>

definition in_window :: "string \<Rightarrow> string \<Rightarrow> string \<Rightarrow> bool" where
  "in_window start end date \<longleftrightarrow>
     date \<noteq> [] \<and> (start = [] \<or> start \<le> date) \<and> (end = [] \<or> date \<le> end)"

text \<open>A normalized Stress record of a given day.\<close>

definition dated :: "string \<Rightarrow> jsval" where
  "dated d = JObj [(''date'', JStr d), (''stress_avg'', JNum (Fin 30))]"

text \<open>The explicit-range scenario of the specification.\<close>

definition june_series :: "jsval list" where
  "june_series =
     [dated ''2025-06-01'', dated ''2025-06-02'', dated ''2025-06-03'', dated ''2025-06-04'',
      dated ''2025-06-05'', dated ''2025-06-06'', dated ''2025-06-07'', dated ''2025-06-08'',
      dated ''2025-06-09'', dated ''2025-06-10'']"

definition june_window :: window where
  "june_window =
     \<lparr>useCustomRange = True, customStart = ''2025-06-03'', customEnd = ''2025-06-05'',
      rangeDays = Some 90\<rparr>"

text \<open>Noon of 2025-07-01 in a zone without offset.\<close>

definition utc_noon :: clock where
  "utc_noon = \<lparr>now = 1751371200000, offset_at_utc = (\<lambda>t. 0), offset_at_local = (\<lambda>t. 0)\<rparr>"

text \<open>
  Eight in the evening of 2025-07-01 on the Pacific coast, seven hours behind UTC:
  2025-07-02T03:00:00Z.
\<close>

definition pacific_evening :: clock where
  "pacific_evening =
     \<lparr>now = 1751425200000, offset_at_utc = (\<lambda>t. - 25200000),
      offset_at_local = (\<lambda>t. - 25200000)\<rparr>"

definition last_30_days :: window where
  "last_30_days =
     \<lparr>useCustomRange = False, customStart = [], customEnd = [], rangeDays = Some 30\<rparr>"

section \<open>Facts about the arithmetic\<close>

lemma binade_bounds:
  assumes "0 < a"
  shows "2 powi binade a \<le> a \<and> a < 2 powi (binade a + 1)"
proof -
  obtain p q where pq: "quotient_of a = (p, q)" by (cases "quotient_of a")
  have q: "0 < q" using pq by (rule quotient_of_denom_pos)
  have a: "a = of_int p / of_int q" using pq by (rule quotient_of_div)
  have p: "0 < p" using assms q a by (simp add: zero_less_divide_iff)
  define bp where "bp = bitlen p"
  define bq where "bq = bitlen q"
  have bp1: "1 \<le> bp" and bq1: "1 \<le> bq"
    using p q bitlen_eq_zero_iff[of p] bitlen_eq_zero_iff[of q] bitlen_nonneg[of p] bitlen_nonneg[of q]
    unfolding bp_def bq_def by linarith+
  have pb: "2 ^ nat (bp - 1) \<le> p" "p < 2 ^ nat bp"
    using bitlen_bounds[OF p] unfolding bp_def by auto
  have qb: "2 ^ nat (bq - 1) \<le> q" "q < 2 ^ nat bq"
    using bitlen_bounds[OF q] unfolding bq_def by auto
  have "(of_int (2 ^ nat (bp - 1)) :: rat) \<le> of_int p" "(of_int p :: rat) < of_int (2 ^ nat bp)"
    using pb by (simp_all only: of_int_le_iff of_int_less_iff)
  then have pr: "(2::rat) powi (bp - 1) \<le> of_int p" "of_int p < (2::rat) powi bp"
    using bp1 by (simp_all add: power_int_nonneg_exp)
  have "(of_int (2 ^ nat (bq - 1)) :: rat) \<le> of_int q" "(of_int q :: rat) < of_int (2 ^ nat bq)"
    using qb by (simp_all only: of_int_le_iff of_int_less_iff)
  then have qr: "(2::rat) powi (bq - 1) \<le> of_int q" "of_int q < (2::rat) powi bq"
    using bq1 by (simp_all add: power_int_nonneg_exp)
  have "of_int p / of_int q < (2::rat) powi bp / 2 powi (bq - 1)"
    using p pr(2) qr(1) by (intro frac_less) simp_all
  also have "\<dots> = 2 powi (bp - (bq - 1))"
    by (simp add: power_int_diff)
  finally have up: "a < 2 powi (bp - bq + 1)"
    by (simp add: a algebra_simps)
  have "(2::rat) powi (bp - 1) / 2 powi bq < of_int p / of_int q"
    using q pr(1) qr(2) by (intro frac_less2) simp_all
  moreover have "(2::rat) powi (bp - 1) / 2 powi bq = 2 powi (bp - 1 - bq)"
    by (simp add: power_int_diff)
  ultimately have lo: "2 powi (bp - bq - 1) < a"
    by (simp add: a algebra_simps)
  show ?thesis
    using up lo pq unfolding binade_def bp_def[symmetric] bq_def[symmetric]
    by (auto simp: Let_def bp_def bq_def)
qed

lemma binade_eqI:
  assumes "2 powi e \<le> a" "a < 2 powi (e + 1)"
  shows "binade a = e"
proof -
  have a: "0 < a" using assms(1) by (rule less_le_trans[rotated]) simp
  note b = binade_bounds[OF a]
  have "(2::rat) powi binade a < 2 powi (e + 1)" using b assms by linarith
  then have 1: "binade a < e + 1"
    by (metis linorder_not_less one_le_numeral power_int_increasing)
  have "(2::rat) powi e < 2 powi (binade a + 1)" using b assms by linarith
  then have 2: "e < binade a + 1"
    by (metis linorder_not_less one_le_numeral power_int_increasing)
  show ?thesis using 1 2 by simp
qed

lemma pow2_less_imp: "(2::rat) powi m < 2 powi n \<Longrightarrow> m < n"
  by (metis linorder_not_less one_le_numeral power_int_increasing)

lemma floor_numeral_div: "\<lfloor>(numeral a :: rat) / numeral b\<rfloor> = numeral a div numeral b"
  using floor_divide_of_int_eq[of "numeral a" "numeral b", where ?'a = rat] by simp

lemma floor_one_div: "\<lfloor>(1 :: rat) / numeral b\<rfloor> = 1 div numeral b"
  using floor_divide_of_int_eq[of 1 "numeral b", where ?'a = rat] by simp

lemma round_half_even_of_int [simp]: "round_half_even (of_int k) = k"
  by (simp add: round_half_even_def)

lemma round_half_even_numeral [simp]: "round_half_even (numeral k) = numeral k"
  using round_half_even_of_int[of "numeral k"] by simp

lemma round_double_of_nat:
  assumes "n < 2 ^ 53"
  shows "round_double (of_nat n) = Fin (of_nat n)"
proof (cases "n = 0")
  case True
  then show ?thesis by (simp add: round_double_def)
next
  case False
  define a :: rat where "a = of_nat n"
  have a0: "0 < a" using False by (simp add: a_def)
  have a1: "1 \<le> a" using False by (simp add: a_def Suc_le_eq)
  have a53: "a < 2 ^ 53" using assms unfolding a_def
    by (metis of_nat_less_iff of_nat_numeral of_nat_power)
  define e where "e = binade a"
  note b = binade_bounds[OF a0, folded e_def]
  have "(2::rat) powi 0 < 2 powi (e + 1)" using b a1 by simp
  then have e0: "0 \<le> e"
    using pow2_less_imp by fastforce
  have "(2::rat) powi e < 2 powi 53" using b a53 by simp
  then have e52: "e \<le> 52"
    using pow2_less_imp by fastforce
  define k where "k = nat (52 - e)"
  have u: "(2::rat) powi (e - 52) = 1 / 2 ^ k"
    using e52 unfolding k_def by (simp add: power_int_def field_simps)
  have q: "a / (1 / 2 ^ k) = of_int (int n * 2 ^ k)" by (simp add: a_def)
  have r: "of_int (round_half_even (a / (1 / 2 ^ k))) * (1 / 2 ^ k) = a"
    unfolding q round_half_even_of_int by (simp add: a_def)
  have "(2::rat) ^ 53 \<le> 2 ^ 1024" by simp
  then have big: "\<not> (2::rat) ^ 1024 \<le> a" using a53 by linarith
  show ?thesis
    using a0 e0 big r unfolding round_double_def a_def[symmetric]
    by (simp add: Let_def e_def[symmetric] u max_def)
qed

lemma round_double_numeral:
  "numeral k < (2::nat) ^ 53 \<Longrightarrow> round_double (numeral k) = Fin (numeral k)"
  using round_double_of_nat[of "numeral k"] by simp

text \<open>The rounding of the code against its description.\<close>

lemma round1_tenth_rounded: "round1 x = tenth_rounded x"
proof (cases x)
  case (Fin a)
  have "(if a < 0 then - (of_int \<lfloor>\<bar>a\<bar> * 10 + 1 / 2\<rfloor> / 10) else of_int \<lfloor>\<bar>a\<bar> * 10 + 1 / 2\<rfloor> / 10)
      = sgn a * of_int (round (\<bar>a\<bar> * 10)) / (10::rat)"
    by (cases "a = 0") (auto simp: round_def sgn_if floor_one_div)
  then show ?thesis
    using Fin by (auto simp: tenth_rounded_def Let_def)
qed (simp_all add: tenth_rounded_def)

lemma round_double_eval:
  assumes "2 powi e \<le> \<bar>q\<bar>" "\<bar>q\<bar> < 2 powi (e + 1)" "- 1022 \<le> e"
    and "round_half_even (\<bar>q\<bar> / 2 powi (e - 52)) = m"
    and "of_int m * 2 powi (e - 52) < (2::rat) ^ 1024"
  shows "round_double q =
           Fin (if 0 < q then of_int m * 2 powi (e - 52) else - (of_int m * 2 powi (e - 52)))"
proof -
  define a where "a = \<bar>q\<bar>"
  have b: "binade a = e" using assms(1,2) unfolding a_def by (rule binade_eqI)
  have m: "round_half_even (a / 2 powi (e - 52)) = m" using assms(4) by (simp add: a_def)
  have "(0::rat) < 2 powi e" by simp
  with assms(1) have "0 < \<bar>q\<bar>" by linarith
  then have q: "q \<noteq> 0" by auto
  have mx: "max e (- 1022) = e" using assms(3) by simp
  have big: "\<not> (2::rat) ^ 1024 \<le> of_int m * 2 powi (e - 52)" using assms(5) by simp
  show ?thesis
    unfolding round_double_def a_def[symmetric] Let_def b mx m
    using q big by (simp only: if_False)
qed

lemma d035: "round_double (7 / 20) = Fin (3152519739159347 / 9007199254740992)"
  by (subst round_double_eval[where e = "- 2" and m = 6305039478318694])
     (simp_all add: power_int_minus round_half_even_def Let_def floor_numeral_div)

lemma round_double_not_nan [simp]: "not_nan (round_double q)"
  by (simp add: round_double_def Let_def)

lemma round1_not_nan: "not_nan x \<Longrightarrow> not_nan (round1 x)"
  by (cases x) (simp_all add: Let_def)

lemma js_mul_100_not_nan: "not_nan x \<Longrightarrow> not_nan (js_mul (Fin 100) x)"
  by (cases x) simp_all

lemma js_div_pos_not_nan: "not_nan x \<Longrightarrow> 0 < g \<Longrightarrow> not_nan (js_div x (Fin g))"
  by (cases x) simp_all

lemma round_half_even_le:
  assumes "x \<le> of_int n"
  shows "round_half_even x \<le> n"
proof -
  have f: "\<lfloor>x\<rfloor> \<le> n" using assms by (simp add: floor_le_iff)
  show ?thesis
  proof (cases "\<lfloor>x\<rfloor> = n")
    case True
    then have "x = of_int \<lfloor>x\<rfloor>" using assms of_int_floor_le[of x] by simp
    then have "x - of_int \<lfloor>x\<rfloor> = 0" by simp
    then show ?thesis using True by (simp add: round_half_even_def Let_def)
  next
    case False
    then have "\<lfloor>x\<rfloor> + 1 \<le> n" using f by simp
    then show ?thesis by (auto simp: round_half_even_def Let_def)
  qed
qed

lemma round_double_finite:
  assumes "\<bar>q\<bar> < 2 ^ 1023"
  shows "\<exists>r. round_double q = Fin r \<and> \<bar>r\<bar> \<le> 2 ^ 1023"
proof (cases "q = 0")
  case True
  then show ?thesis by (simp add: round_double_def)
next
  case False
  define a where "a = \<bar>q\<bar>"
  have a0: "0 < a" using False by (simp add: a_def)
  define e where "e = max (binade a) (- 1022)"
  define u :: rat where "u = 2 powi (e - 52)"
  define m where "m = round_half_even (a / u)"
  have u0: "0 < u" by (simp add: u_def)
  note b = binade_bounds[OF a0]
  have "(2::rat) powi binade a < 2 powi 1023" using b assms by (simp add: a_def)
  then have "binade a < 1023" by (rule pow2_less_imp)
  then have e: "e \<le> 1022" by (simp add: e_def)
  have "a < 2 powi (e + 1)"
  proof -
    have "(2::rat) powi (binade a + 1) \<le> 2 powi (e + 1)"
      by (rule power_int_increasing) (simp_all add: e_def)
    then show ?thesis using b by linarith
  qed
  also have "\<dots> = 2 ^ 53 * u"
    by (simp add: u_def power_int_diff power_int_add)
  finally have "a / u < 2 ^ 53" using u0 by (simp add: pos_divide_less_eq)
  then have "a / u \<le> of_int (2 ^ 53)" by simp
  then have m53: "m \<le> 2 ^ 53" unfolding m_def by (rule round_half_even_le)
  have m0: "0 \<le> m"
  proof -
    have "0 \<le> a / u" using a0 u0 by simp
    then have "0 \<le> \<lfloor>a / u\<rfloor>" by simp
    then show ?thesis by (auto simp: m_def round_half_even_def Let_def)
  qed
  have "of_int m * u \<le> 2 ^ 53 * u"
    using m53 u0 by (simp add: mult_right_mono)
  also have "\<dots> = 2 powi (e + 1)"
    by (simp add: u_def power_int_diff power_int_add)
  also have "\<dots> \<le> 2 powi 1023"
    by (rule power_int_increasing) (use e in simp_all)
  finally have r: "of_int m * u \<le> 2 ^ 1023" by simp
  have r0: "0 \<le> of_int m * u" using m0 u0 by simp
  have "(2::rat) ^ 1023 < 2 ^ 1024" by simp
  with r have big: "\<not> (2::rat) ^ 1024 \<le> of_int m * u" by linarith
  have "round_double q = Fin (if 0 < q then of_int m * u else - (of_int m * u))"
    unfolding round_double_def a_def[symmetric] Let_def e_def[symmetric] u_def[symmetric]
      m_def[symmetric]
    using False big by (simp only: if_False)
  then show ?thesis using r r0 by auto
qed

lemma is_double_bound:
  assumes "is_double q"
  shows "\<bar>q\<bar> < 2 ^ 1024"
proof (cases "q = 0")
  case True
  then show ?thesis by simp
next
  case False
  define r where "r = of_int (round_half_even (\<bar>q\<bar> / 2 powi (max (binade \<bar>q\<bar>) (- 1022) - 52)))
      * (2::rat) powi (max (binade \<bar>q\<bar>) (- 1022) - 52)"
  have "(if 2 ^ 1024 \<le> r then (if 0 < q then PInf else NInf)
         else Fin (if 0 < q then r else - r)) = Fin q"
    using assms False unfolding is_double_def round_double_def Let_def r_def by simp
  then have "r < 2 ^ 1024 \<and> (if 0 < q then r else - r) = q"
    by (auto split: if_splits)
  then show ?thesis by (auto split: if_splits)
qed

lemma round1_finite:
  assumes "\<bar>r\<bar> \<le> 2 ^ 1023"
  shows "\<exists>t. round1 (Fin r) = Fin t"
proof (cases "10 ^ 21 \<le> \<bar>r\<bar>")
  case True
  then show ?thesis by simp
next
  case False
  define k where "k = \<lfloor>\<bar>r\<bar> * 10 + 1 / 2\<rfloor>"
  have "of_int k \<le> \<bar>r\<bar> * 10 + 1 / 2" unfolding k_def by (rule of_int_floor_le)
  moreover have "0 \<le> k" unfolding k_def by simp
  ultimately have "\<bar>of_int k / (10::rat)\<bar> < 10 ^ 21 + 1" using False by simp
  moreover have "(10::rat) ^ 21 + 1 < 2 ^ 1023" by simp
  ultimately have t: "\<bar>of_int k / (10::rat)\<bar> < 2 ^ 1023" by linarith
  have "\<bar>- (of_int k / (10::rat))\<bar> < 2 ^ 1023" using t by simp
  then show ?thesis
    using False round_double_finite[OF t] round_double_finite[of "- (of_int k / 10)"]
    by (auto simp: Let_def k_def)
qed

lemma to_min_finite:
  assumes "is_double q"
  shows "\<exists>t. round1 (js_div (Fin q) (Fin 60)) = Fin t"
proof -
  have "\<bar>q\<bar> < 2 ^ 1024" using assms by (rule is_double_bound)
  then have "\<bar>q / 60\<bar> < 2 ^ 1024 / 60" by (simp add: divide_strict_right_mono)
  moreover have "(2::rat) ^ 1024 / 60 < 2 ^ 1023" by simp
  ultimately have "\<bar>q / 60\<bar> < 2 ^ 1023" by linarith
  then obtain r where "round_double (q / 60) = Fin r" "\<bar>r\<bar> \<le> 2 ^ 1023"
    using round_double_finite by blast
  then show ?thesis using round1_finite[of r] by simp
qed

lemma nearest_tenth_nonneg:
  assumes "0 \<le> q"
  shows "nearest_tenth q (of_int (round (q * 10)) / 10)"
proof -
  define y where "y = q * 10"
  define k where "k = round y"
  have y0: "0 \<le> y" using assms by (simp add: y_def)
  have q: "q = y / 10" by (simp add: y_def)
  have up: "of_int k \<le> y + 1 / 2" and lo: "y - 1 / 2 < of_int k"
    unfolding k_def round_def by linarith+
  have k0: "0 \<le> k" unfolding k_def using y0 by (simp add: round_def)
  have d: "\<bar>of_int j / 10 - q\<bar> = \<bar>of_int j - y\<bar> / 10" for j :: int
    by (simp add: q abs_if field_simps)
  have near: "\<bar>of_int k - y\<bar> \<le> \<bar>of_int j - y\<bar>" for j :: int
    using round_diff_minimal[of y j] by (simp add: k_def abs_minus_commute)
  have tie: "\<bar>j\<bar> \<le> \<bar>k\<bar>" if "\<bar>of_int j - y\<bar> = \<bar>of_int k - y\<bar>" for j :: int
  proof (cases "j = k")
    case True
    then show ?thesis by simp
  next
    case False
    have "of_int j - y = of_int k - y \<or> of_int j - y = - (of_int k - y)"
      using that by (auto simp: abs_if split: if_splits)
    then have s: "(of_int j :: rat) = 2 * y - of_int k" using False by auto
    have "(of_int j :: rat) < of_int k + 1" using s lo by linarith
    then have "j \<le> k" by linarith
    moreover have "(of_int j :: rat) > - 1" using s up y0 by linarith
    then have "0 \<le> j" by linarith
    ultimately show ?thesis by simp
  qed
  have t: "\<bar>of_int j / (10::rat)\<bar> \<le> \<bar>of_int k / 10\<bar>"
    if "\<bar>of_int j - y\<bar> = \<bar>of_int k - y\<bar>" for j :: int
  proof -
    have "\<bar>(of_int j :: rat)\<bar> \<le> \<bar>of_int k\<bar>"
      using tie[OF that] by (metis of_int_abs of_int_le_iff)
    then show ?thesis by simp
  qed
  show ?thesis
    unfolding nearest_tenth_def y_def[symmetric] k_def[symmetric]
    using near t by (auto simp: d divide_right_mono)
qed

lemma nearest_tenth_minus: "nearest_tenth q t \<Longrightarrow> nearest_tenth (- q) (- t)"
proof -
  assume a: "nearest_tenth q t"
  have 1: "\<exists>k::int. - t = of_int k / 10"
  proof -
    from a obtain k :: int where "t = of_int k / 10" by (auto simp: nearest_tenth_def)
    then have "- t = of_int (- k) / 10" by simp
    then show ?thesis by blast
  qed
  have e: "\<bar>of_int j / 10 - (- q)\<bar> = \<bar>of_int (- j) / 10 - q\<bar>" for j :: int
    by (simp add: abs_if)
  have 2: "\<bar>- t - (- q)\<bar> \<le> \<bar>of_int j / 10 - (- q)\<bar>" for j :: int
    using a unfolding e nearest_tenth_def by (metis abs_minus_commute minus_diff_minus abs_minus_cancel)
  have 3: "\<bar>of_int j / 10\<bar> \<le> \<bar>- t\<bar>" if "\<bar>of_int j / 10 - (- q)\<bar> = \<bar>- t - (- q)\<bar>" for j :: int
  proof -
    have "\<bar>of_int (- j) / 10 - q\<bar> = \<bar>t - q\<bar>"
      using that unfolding e by (simp add: abs_if split: if_splits)
    then have "\<bar>of_int (- j) / (10::rat)\<bar> \<le> \<bar>t\<bar>"
      using a unfolding nearest_tenth_def by blast
    then show ?thesis by simp
  qed
  show ?thesis unfolding nearest_tenth_def using 1 2 3 by blast
qed

lemma tenth_rounded_nearest:
  "nearest_tenth q (sgn q * of_int (round (\<bar>q\<bar> * 10)) / 10)"
proof (cases "0 \<le> q")
  case True
  then show ?thesis
    using nearest_tenth_nonneg[OF True] by (cases "q = 0") (simp_all add: sgn_if)
next
  case False
  then have "nearest_tenth (- q) (of_int (round (- q * 10)) / 10)"
    by (intro nearest_tenth_nonneg) simp
  then have "nearest_tenth (- (- q)) (- (of_int (round (- q * 10)) / 10))"
    by (rule nearest_tenth_minus)
  then show ?thesis using False by (simp add: sgn_if)
qed

section \<open>The sort of the engine\<close>

text \<open>
  With a comparison function of the source's shape the procedure of V8 answers a
  permutation of its input in ascending order of the keys; the order among equal keys is
  what the source's comparison function leaves open.
\<close>

lemma by_key_neg: "by_key key a b < 0 \<longleftrightarrow> key a \<le> key b"
  by (auto simp: by_key_def)

lemma binary_search_place:
  assumes "sorted (map key xs)" "l \<le> r" "r \<le> length xs"
    and "\<forall>i<l. key (xs ! i) < key p"
    and "\<forall>i. r \<le> i \<and> i < length xs \<longrightarrow> key p \<le> key (xs ! i)"
  shows "binary_search (by_key key) p xs l r \<le> length xs
     \<and> (\<forall>i < binary_search (by_key key) p xs l r. key (xs ! i) < key p)
     \<and> (\<forall>i. binary_search (by_key key) p xs l r \<le> i \<and> i < length xs
            \<longrightarrow> key p \<le> key (xs ! i))"
  using assms
proof (induction "by_key key" p xs l r rule: binary_search.induct)
  case (1 pivot xs left right)
  show ?case
  proof (cases "left < right")
    case False
    then have "binary_search (by_key key) pivot xs left right = left"
      by (subst binary_search.simps) simp
    moreover have "left = right" using False "1.prems"(2) by simp
    ultimately show ?thesis using "1.prems" by simp
  next
    case True
    define mid where "mid = left + (right - left) div 2"
    have mid: "left \<le> mid" "mid < right" using True by (auto simp: mid_def)
    have srt: "\<And>i j. i \<le> j \<Longrightarrow> j < length xs \<Longrightarrow> key (xs ! i) \<le> key (xs ! j)"
      using "1.prems"(1) by (simp add: sorted_iff_nth_mono)
    show ?thesis
    proof (cases "by_key key pivot (xs ! mid) < 0")
      case neg: True
      then have le: "key pivot \<le> key (xs ! mid)" by (simp add: by_key_neg)
      have up: "\<forall>i. mid \<le> i \<and> i < length xs \<longrightarrow> key pivot \<le> key (xs ! i)"
        using le srt by (meson order_trans)
      have "binary_search (by_key key) pivot xs left mid \<le> length xs
         \<and> (\<forall>i < binary_search (by_key key) pivot xs left mid. key (xs ! i) < key pivot)
         \<and> (\<forall>i. binary_search (by_key key) pivot xs left mid \<le> i \<and> i < length xs
                \<longrightarrow> key pivot \<le> key (xs ! i))"
      proof (rule "1.hyps"(1)[OF True mid_def neg])
        show "sorted (map key xs)" by (rule "1.prems"(1))
        show "left \<le> mid" by (rule mid(1))
        show "mid \<le> length xs" using mid(2) "1.prems"(3) by simp
        show "\<forall>i<left. key (xs ! i) < key pivot" by (rule "1.prems"(4))
        show "\<forall>i. mid \<le> i \<and> i < length xs \<longrightarrow> key pivot \<le> key (xs ! i)" by (rule up)
      qed
      moreover have "binary_search (by_key key) pivot xs left right
          = binary_search (by_key key) pivot xs left mid"
        using True neg by (subst binary_search.simps) (simp add: mid_def Let_def)
      ultimately show ?thesis by simp
    next
      case pos: False
      then have lt: "key (xs ! mid) < key pivot" by (simp add: by_key_neg)
      have mlen: "mid < length xs" using mid(2) "1.prems"(3) by simp
      have lo: "\<forall>i < mid + 1. key (xs ! i) < key pivot"
      proof (intro allI impI)
        fix i assume "i < mid + 1"
        then have "key (xs ! i) \<le> key (xs ! mid)" using srt[of i mid] mlen by simp
        then show "key (xs ! i) < key pivot" using lt by simp
      qed
      have "binary_search (by_key key) pivot xs (mid + 1) right \<le> length xs
         \<and> (\<forall>i < binary_search (by_key key) pivot xs (mid + 1) right. key (xs ! i) < key pivot)
         \<and> (\<forall>i. binary_search (by_key key) pivot xs (mid + 1) right \<le> i \<and> i < length xs
                \<longrightarrow> key pivot \<le> key (xs ! i))"
      proof (rule "1.hyps"(2)[OF True mid_def pos])
        show "sorted (map key xs)" by (rule "1.prems"(1))
        show "mid + 1 \<le> right" using mid(2) by simp
        show "right \<le> length xs" by (rule "1.prems"(3))
        show "\<forall>i<mid + 1. key (xs ! i) < key pivot" by (rule lo)
        show "\<forall>i. right \<le> i \<and> i < length xs \<longrightarrow> key pivot \<le> key (xs ! i)"
          by (rule "1.prems"(5))
      qed
      moreover have "binary_search (by_key key) pivot xs left right
          = binary_search (by_key key) pivot xs (mid + 1) right"
        using True pos by (subst binary_search.simps) (simp add: mid_def Let_def)
      ultimately show ?thesis by simp
    qed
  qed
qed


lemma insert_sorted:
  assumes "sorted (map key front)"
  shows "sorted (map key (take (binary_search (by_key key) p front 0 (length front)) front
           @ p # drop (binary_search (by_key key) p front 0 (length front)) front))"
proof -
  define k where "k = binary_search (by_key key) p front 0 (length front)"
  have b: "k \<le> length front" "\<forall>i<k. key (front ! i) < key p"
    "\<forall>i. k \<le> i \<and> i < length front \<longrightarrow> key p \<le> key (front ! i)"
  proof -
    have v: "\<forall>i. length front \<le> i \<and> i < length front \<longrightarrow> key p \<le> key (front ! i)"
      by auto
    have "binary_search (by_key key) p front 0 (length front) \<le> length front
     \<and> (\<forall>i < binary_search (by_key key) p front 0 (length front). key (front ! i) < key p)
     \<and> (\<forall>i. binary_search (by_key key) p front 0 (length front) \<le> i \<and> i < length front
            \<longrightarrow> key p \<le> key (front ! i))"
      by (rule binary_search_place[OF assms _ _ _ v]) simp_all
    then show "k \<le> length front" "\<forall>i<k. key (front ! i) < key p"
      "\<forall>i. k \<le> i \<and> i < length front \<longrightarrow> key p \<le> key (front ! i)"
      by (simp_all add: k_def)
  qed
  have t: "sorted (map key (take k front))" and d: "sorted (map key (drop k front))"
    using assms sorted_wrt_take[of "(\<le>)" "map key front" k]
      sorted_wrt_drop[of "(\<le>)" "map key front" k]
    by (simp_all add: take_map drop_map)
  have 1: "\<forall>x\<in>set (take k front). key x < key p"
    using b(1,2) by (auto simp: in_set_conv_nth)
  have 2: "\<forall>y\<in>set (drop k front). key p \<le> key y"
    using b(1,3) by (auto simp: in_set_conv_nth)
  have "sorted (map key (take k front) @ key p # map key (drop k front))"
    using t d 1 2 by (fastforce simp: sorted_append)
  then show ?thesis by (simp add: k_def)
qed

lemma binary_insertion_sorted:
  "sorted (map key front) \<Longrightarrow> sorted (map key (binary_insertion (by_key key) front rest))"
proof (induction rest arbitrary: front)
  case Nil
  then show ?case by simp
next
  case (Cons p rest)
  show ?case
    using Cons.IH[OF insert_sorted[OF Cons.prems, of p]] by (simp add: Let_def)
qed

lemma binary_insertion_mset:
  "mset (binary_insertion cmp front rest) = mset front + mset rest"
proof (induction rest arbitrary: front)
  case Nil
  show ?case by simp
next
  case (Cons p rest)
  have "mset (take k front @ p # drop k front) = add_mset p (mset front)" for k
    by (metis append_take_drop_id mset_append union_mset_add_mset_right add_mset_add_single mset.simps(2))
  then show ?case by (simp add: Let_def Cons.IH)
qed

lemma run_ascending:
  "sorted (map key (prev # take (run_length (by_key key) False prev xs) xs))"
proof (induction xs arbitrary: prev)
  case Nil
  show ?case by simp
next
  case (Cons x xs)
  show ?case
    using Cons.IH[of x] by (auto simp: Let_def by_key_def split: if_splits)
qed

lemma run_descending:
  "sorted (rev (map key (prev # take (run_length (by_key key) True prev xs) xs)))"
proof (induction xs arbitrary: prev)
  case Nil
  show ?case by simp
next
  case (Cons x xs)
  show ?case
    using Cons.IH[of x]
    by (auto simp: Let_def by_key_def sorted_append split: if_splits)
qed


lemma run_length_le: "run_length cmp desc prev xs \<le> length xs"
  by (induction xs arbitrary: prev) (auto simp: Let_def)

lemma long_list:
  assumes "\<not> length xs < 2"
  obtains x0 x1 rest where "xs = x0 # x1 # rest"
  using assms by (cases xs; cases "tl xs") auto

lemma v8_sort_mset: "mset (v8_sort cmp xs) = mset xs"
proof (cases "length xs < 2")
  case True
  then show ?thesis by (simp add: v8_sort_def)
next
  case False
  then obtain x0 x1 rest where xs: "xs = x0 # x1 # rest" by (rule long_list)
  define n where "n = 2 + run_length cmp (cmp x1 x0 < 0) x1 rest"
  have 1: "mset (take n ys) + mset (drop n ys) = mset ys" for ys :: "'a list"
    by (metis append_take_drop_id mset_append)
  have 2: "mset (rev (take n xs) @ drop n xs) = mset xs"
    by (metis append_take_drop_id mset_append mset_rev)
  have "mset (binary_insertion cmp (take n ys) (drop n ys)) = mset ys" for ys
    by (simp add: binary_insertion_mset 1)
  then show ?thesis
    using 2 unfolding v8_sort_def xs count_and_make_run.simps Let_def n_def[symmetric]
    by (simp add: xs split: if_splits)
qed

lemma v8_sort_sorted: "sorted (map key (v8_sort (by_key key) xs))"
proof (cases "length xs < 2")
  case True
  then show ?thesis by (cases xs) (auto simp: v8_sort_def)
next
  case False
  then obtain x0 x1 rest where xs: "xs = x0 # x1 # rest" by (rule long_list)
  define desc where "desc = (by_key key x1 x0 < 0)"
  define m where "m = run_length (by_key key) desc x1 rest"
  have m: "m \<le> length rest" by (simp add: m_def run_length_le)
  have r: "run_length (by_key key) desc x0 (x1 # rest) = Suc m"
    by (auto simp: desc_def m_def Let_def)
  have front: "sorted (map key (if desc then rev (x0 # x1 # take m rest) else x0 # x1 # take m rest))"
  proof (cases desc)
    case True
    then show ?thesis
      using run_descending[of key x0 "x1 # rest"] r by (simp add: rev_map)
  next
    case False
    then show ?thesis
      using run_ascending[of key x0 "x1 # rest"] r by simp
  qed
  define n where "n = Suc (Suc m)"
  have n: "n \<le> length xs" using m by (simp add: n_def xs)
  define A where "A = rev (take n xs)"
  define B where "B = drop n xs"
  have run: "count_and_make_run (by_key key) xs = (if desc then A @ B else xs, n)"
    by (simp add: xs Let_def desc_def m_def n_def A_def B_def)
  have lenA: "length A = n" using n by (simp add: A_def)
  have A: "A = rev (x0 # x1 # take m rest)" and B: "B = drop m rest"
    by (simp_all add: A_def B_def xs n_def)
  have "v8_sort (by_key key) xs =
      binary_insertion (by_key key)
        (if desc then rev (x0 # x1 # take m rest) else x0 # x1 # take m rest) (drop m rest)"
  proof (cases desc)
    case True
    then have "v8_sort (by_key key) xs = binary_insertion (by_key key) A B"
      using False lenA by (simp add: v8_sort_def run)
    then show ?thesis using True by (simp only: A B if_True)
  next
    case nd: False
    then show ?thesis
      using False by (simp add: v8_sort_def run) (simp add: xs n_def)
  qed
  then show ?thesis
    using binary_insertion_sorted[OF front] by simp
qed

section \<open>Steps and Exercise\<close>

lemma pct_rule_steps: "pct_rule (of_num s) (of_num g) = JNum (steps_pct s g)"
  by (cases s; cases g; cases "the g")
     (auto simp: pct_rule_def steps_pct_def round1_tenth_rounded)

lemma pct_rule_exercise: "pct_rule (of_num t) (of_num g) = JNum (exercise_pct t g)"
  by (cases t; cases g; cases "the g")
     (auto simp: pct_rule_def exercise_pct_def round1_tenth_rounded)

lemmas arith_eval = round_double_numeral floor_numeral_div floor_one_div

lemma steps_row_example_value:
  "normSteps_row E steps_row_example =
     Inr (JObj [(''date'', JStr ''2025-06-01''), (''steps'', JNum (Fin 5000)),
                (''step_goal'', JNum (Fin 10000)), (''steps_pct_goal'', JNum (Fin 50))])"
  by (simp add: normSteps_row_def steps_row_example_def steps_pct_def Let_def arith_eval)

lemma exercise_row_example_value:
  "normExercise_row E exercise_row_example =
     Inr (JObj [(''date'', JStr ''2025-06-01''), (''moderate_min'', JNum (Fin 30)),
                (''vigorous_min'', JNum (Fin 10)), (''total_min'', JNum (Fin 40)),
                (''exercise_pct_goal'', JNum (Fin 160)), (''distance'', JNull),
                (''calories_active'', JNull), (''calories_total'', JNull)])"
  by (simp add: normExercise_row_def exercise_row_example_def exercise_pct_def Let_def
      to_min_def total_minutes_def total_seconds_def or0_def arith_eval)

lemma d03: "round_double (3 / 10) = Fin (5404319552844595 / 18014398509481984)"
  by (subst round_double_eval[where e = "- 2" and m = 5404319552844595])
     (simp_all add: power_int_minus round_half_even_def Let_def floor_numeral_div)

lemma d04: "round_double (2 / 5) = Fin (3602879701896397 / 9007199254740992)"
  by (subst round_double_eval[where e = "- 2" and m = 7205759403792794])
     (simp_all add: power_int_minus round_half_even_def Let_def floor_numeral_div)

lemma d035_times_10:
  "round_double (3152519739159347 / 900719925474099200 * 1000) = Fin (7 / 2)"
  by (subst round_double_eval[where e = 1 and m = 7881299347898368])
     (simp_all add: power_int_minus round_half_even_def Let_def floor_numeral_div)

lemma code_rounds_035: "round1 (Fin (3152519739159347 / 9007199254740992))
    = Fin (5404319552844595 / 18014398509481984)"
  by (simp add: Let_def floor_numeral_div d03)

lemma spec_rounds_035:
  "spec_round1 tie (Fin (3152519739159347 / 9007199254740992))
    = Fin (3602879701896397 / 9007199254740992)"
proof -
  have m: "js_mul (Fin (3152519739159347 / 9007199254740992)) (Fin 10) = Fin (7 / 2)"
    using d035_times_10 by simp
  have n: "nearest_integer tie (7 / 2) = 4"
    by (cases tie) (simp_all add: round_half_even_def Let_def floor_numeral_div)
  show ?thesis
    unfolding spec_round1_def m by (simp add: n d04)
qed


lemma numOrNull_Some: "numOrNull v = Some x \<Longrightarrow> \<exists>a. v = JNum (Fin a) \<and> x = Fin a"
  by (cases v rule: numOrNull.cases) (auto split: if_splits elim: isFinite_num.elims)

lemma to_min_minutes_of: "of_num (to_min (numOrNull v)) = minutes_of v"
  by (cases v rule: numOrNull.cases)
     (auto simp: to_min_def minutes_of_def round1_tenth_rounded split: jsnum.splits)

lemma steps_pct_not_nan: "not_nan (steps_pct (numOrNull u) (numOrNull v))"
proof (cases "numOrNull u")
  case None
  then show ?thesis by (simp add: steps_pct_def)
next
  case (Some s)
  then obtain a where s: "s = Fin a" using numOrNull_Some by blast
  show ?thesis
  proof (cases "numOrNull v")
    case None
    then show ?thesis using Some by (simp add: steps_pct_def)
  next
    case g: (Some g)
    then obtain b where b: "g = Fin b" using numOrNull_Some by blast
    show ?thesis
      unfolding Some g steps_pct_def s b
      by (auto intro!: round1_not_nan js_div_pos_not_nan)
  qed
qed

lemma total_minutes_not_nan: "total_minutes ms vs = Some t \<Longrightarrow> not_nan t"
  by (auto simp: total_minutes_def Let_def split: if_splits
      elim!: isFinite_num.elims intro!: round1_not_nan)

lemma exercise_pct_not_nan:
  assumes "json_number v"
  shows "not_nan (exercise_pct (total_minutes ms vs) (to_min (numOrNull v)))"
proof (cases "numOrNull v")
  case None
  then show ?thesis by (simp add: exercise_pct_def to_min_def)
next
  case (Some g)
  then obtain q where q: "v = JNum (Fin q)" "g = Fin q" using numOrNull_Some by blast
  then have "is_double q" using assms by (simp add: json_number_def)
  then obtain b where b: "round1 (js_div (Fin q) (Fin 60)) = Fin b"
    using to_min_finite by blast
  have gm: "to_min (numOrNull v) = Some (Fin b)"
    using Some q b by (simp add: to_min_def)
  show ?thesis
  proof (cases "total_minutes ms vs")
    case None
    then show ?thesis by (simp add: exercise_pct_def gm)
  next
    case t: (Some t)
    then have "not_nan t" by (rule total_minutes_not_nan)
    then have "0 < b \<Longrightarrow> not_nan (round1 (js_div (js_mul (Fin 100) t) (Fin b)))"
      by (intro round1_not_nan js_div_pos_not_nan js_mul_100_not_nan)
    then show ?thesis by (simp add: exercise_pct_def gm t)
  qed
qed

lemma normSteps_row_fields:
  assumes "normSteps_row E r = Inr out"
  shows "optget out ''steps'' = of_num (numOrNull (optget r ''steps''))"
    and "optget out ''step_goal'' = of_num (numOrNull (optget r ''step_goal''))"
    and "optget out ''steps_pct_goal'' =
      JNum (steps_pct (numOrNull (optget r ''steps'')) (numOrNull (optget r ''step_goal'')))"
  using assms by (auto simp: normSteps_row_def Let_def split: sum.splits)

lemma normExercise_row_total:
  "normExercise_row E r = Inr out \<Longrightarrow>
     optget out ''total_min'' =
       of_num (total_minutes (numOrNull (optget r ''moderate_activity_seconds''))
                             (numOrNull (optget r ''vigorous_activity_seconds'')))"
  by (auto simp: normExercise_row_def Let_def split: sum.splits)

lemma normExercise_row_pct:
  "normExercise_row E r = Inr out \<Longrightarrow>
     optget out ''exercise_pct_goal'' =
      JNum (exercise_pct
         (total_minutes (numOrNull (optget r ''moderate_activity_seconds''))
                        (numOrNull (optget r ''vigorous_activity_seconds'')))
         (to_min (numOrNull (optget r ''intensity_time_goal_seconds''))))"
  by (auto simp: normExercise_row_def Let_def split: sum.splits)

lemma seven_steps_value:
  "field_of (normSteps_row E seven_steps_row) ''steps_pct_goal''
     = Inr (JNum (Fin (5404319552844595 / 18014398509481984)))"
proof -
  have "js_div (js_mul (Fin 100) (Fin 7)) (Fin 2000) = Fin (3152519739159347 / 9007199254740992)"
    by (simp add: arith_eval d035)
  then have "steps_pct (Some (Fin 7)) (Some (Fin 2000)) = Fin (5404319552844595 / 18014398509481984)"
    unfolding steps_pct_def by (simp add: code_rounds_035 del: js_mul.simps js_div.simps round1.simps)
  then show ?thesis
    by (simp add: field_of_def normSteps_row_def seven_steps_row_def Let_def)
qed

lemma seven_steps_spec:
  "spec_pct_rule tie (JNum (Fin 7)) (JNum (Fin 2000))
     = JNum (Fin (3602879701896397 / 9007199254740992))"
proof -
  have "js_div (js_mul (Fin 100) (Fin 7)) (Fin 2000) = Fin (3152519739159347 / 9007199254740992)"
    by (simp add: arith_eval d035)
  then show ?thesis
    unfolding spec_pct_rule_def
    by (simp add: spec_rounds_035 del: js_mul.simps js_div.simps)
qed

text \<open>
  Claim C1, as stated, fails in the rounding.  The specification rounds by
  \<open>round(x * 10) / 10\<close>; the code prints with \<^verbatim>\<open>toFixed(1)\<close>, which rounds the exact
  binary value.  For 7 steps of a goal of 2000 the quotient is the binary64 value just
  below 0.35: the code answers 0.3, and \<open>round(3.5) / 10\<close> is 0.4 whichever way a tie
  goes.
\<close>

theorem percentage_rounding_counterexample:
  "field_of (normSteps_row v8 seven_steps_row) ''steps_pct_goal''
     = Inr (JNum (Fin (5404319552844595 / 18014398509481984)))
   \<and> spec_pct_rule HalfUp (JNum (Fin 7)) (JNum (Fin 2000))
     = JNum (Fin (3602879701896397 / 9007199254740992))
   \<and> spec_pct_rule HalfEven (JNum (Fin 7)) (JNum (Fin 2000))
     = JNum (Fin (3602879701896397 / 9007199254740992))
   \<and> spec_pct_rule HalfAway (JNum (Fin 7)) (JNum (Fin 2000))
     = JNum (Fin (3602879701896397 / 9007199254740992))
   \<and> field_of (normSteps_row v8 seven_steps_row) ''steps_pct_goal''
     \<noteq> Inr (spec_pct_rule HalfUp (JNum (Fin 7)) (JNum (Fin 2000)))"
  by (simp add: seven_steps_value seven_steps_spec)

text \<open>
  Claim C1, amended.  For every raw Steps record and every raw Exercise record that is
  normalized, the goal-percentage field is \<open>100 * numerator / denominator\<close> rounded to
  the nearest tenth of its exact value (the larger magnitude on a tie, as
  \<^verbatim>\<open>toFixed(1)\<close> rounds) when numerator and denominator are present and the
  denominator is above 0, and 0 otherwise.  The numerator is \<open>steps\<close>, respectively
  \<open>total_min\<close>; the denominator is \<open>step_goal\<close>, respectively the goal in minutes,
  \<open>intensity_time_goal_seconds / 60\<close> rounded the same way.  The field is a number in
  every case, never absent, and never NaN (for Exercise, when the raw goal is a binary64
  value, as decoded JSON is).
\<close>

theorem goal_percentage_rule:
  "(normSteps_row E r = Inr out \<longrightarrow>
      optget out ''steps_pct_goal'' = pct_rule (optget out ''steps'') (optget out ''step_goal'')
      \<and> (\<exists>x. optget out ''steps_pct_goal'' = JNum x \<and> not_nan x))
   \<and> (normExercise_row E r' = Inr out' \<longrightarrow>
      optget out' ''exercise_pct_goal'' =
        pct_rule (optget out' ''total_min'')
          (minutes_of (optget r' ''intensity_time_goal_seconds''))
      \<and> (\<exists>x. optget out' ''exercise_pct_goal'' = JNum x
            \<and> (json_number (optget r' ''intensity_time_goal_seconds'') \<longrightarrow> not_nan x)))"
proof (intro conjI impI)
  assume a: "normSteps_row E r = Inr out"
  show "optget out ''steps_pct_goal'' = pct_rule (optget out ''steps'') (optget out ''step_goal'')"
    by (simp only: normSteps_row_fields[OF a] pct_rule_steps)
  show "\<exists>x. optget out ''steps_pct_goal'' = JNum x \<and> not_nan x"
    by (simp only: normSteps_row_fields[OF a]) (simp add: steps_pct_not_nan)
next
  assume a: "normExercise_row E r' = Inr out'"
  show "optget out' ''exercise_pct_goal'' =
        pct_rule (optget out' ''total_min'')
          (minutes_of (optget r' ''intensity_time_goal_seconds''))"
    by (simp only: normExercise_row_total[OF a] normExercise_row_pct[OF a]
        to_min_minutes_of[symmetric] pct_rule_exercise)
  show "\<exists>x. optget out' ''exercise_pct_goal'' = JNum x
            \<and> (json_number (optget r' ''intensity_time_goal_seconds'') \<longrightarrow> not_nan x)"
    by (simp only: normExercise_row_pct[OF a]) (simp add: exercise_pct_not_nan)
qed

text \<open>The two scenarios of the specification: 50 percent of the step goal, 160 of the exercise goal.\<close>

theorem goal_percentage_rule_witness:
  "normSteps_row v8 steps_row_example =
     Inr (JObj [(''date'', JStr ''2025-06-01''), (''steps'', JNum (Fin 5000)),
                (''step_goal'', JNum (Fin 10000)), (''steps_pct_goal'', JNum (Fin 50))])
   \<and> JNum (Fin 50) = pct_rule (JNum (Fin 5000)) (JNum (Fin 10000))
   \<and> normExercise_row v8 exercise_row_example =
     Inr (JObj [(''date'', JStr ''2025-06-01''), (''moderate_min'', JNum (Fin 30)),
                (''vigorous_min'', JNum (Fin 10)), (''total_min'', JNum (Fin 40)),
                (''exercise_pct_goal'', JNum (Fin 160)), (''distance'', JNull),
                (''calories_active'', JNull), (''calories_total'', JNull)])
   \<and> json_number (JNum (Fin 1500))
   \<and> minutes_of (JNum (Fin 1500)) = JNum (Fin 25)
   \<and> JNum (Fin 160) = pct_rule (JNum (Fin 40)) (JNum (Fin 25))"
proof -
  have g: "optget exercise_row_example ''intensity_time_goal_seconds'' = JNum (Fin 1500)"
    by (simp add: exercise_row_example_def)
  have j: "json_number (JNum (Fin 1500))"
    by (simp add: json_number_def is_double_def arith_eval)
  have m: "minutes_of (JNum (Fin 1500)) = JNum (Fin 25)"
    by (simp add: minutes_of_def tenth_rounded_def arith_eval)
  show ?thesis
    using goal_percentage_rule
      [of v8 steps_row_example
          "JObj [(''date'', JStr ''2025-06-01''), (''steps'', JNum (Fin 5000)),
                 (''step_goal'', JNum (Fin 10000)), (''steps_pct_goal'', JNum (Fin 50))]"
          exercise_row_example
          "JObj [(''date'', JStr ''2025-06-01''), (''moderate_min'', JNum (Fin 30)),
                 (''vigorous_min'', JNum (Fin 10)), (''total_min'', JNum (Fin 40)),
                 (''exercise_pct_goal'', JNum (Fin 160)), (''distance'', JNull),
                 (''calories_active'', JNull), (''calories_total'', JNull)]"]
    by (simp add: steps_row_example_value exercise_row_example_value g j m)
qed

lemma round_double_zero: "round_double 0 = Fin 0"
  by (simp add: round_double_def)

lemma or0_numOrNull: "or0 (numOrNull v) = seconds_or_0 v"
  by (cases v rule: numOrNull.cases) (auto simp: or0_def seconds_or_0_def split: jsnum.splits)

lemma numOrNull_None_iff: "numOrNull v = None \<longleftrightarrow> \<not> finite_number v"
  by (cases v rule: numOrNull.cases) (auto simp: finite_number_def split: jsnum.splits)

lemma big_seconds_double: "is_double big_seconds"
  using binade_eqI[of 1023 "2 ^ 1023"]
  by (simp add: is_double_def big_seconds_def round_double_def Let_def)

lemma big_seconds_sum: "js_add (Fin big_seconds) (Fin big_seconds) = PInf"
  using binade_eqI[of 1024 "2 ^ 1024"]
  by (simp add: big_seconds_def round_double_def Let_def)

lemma idle_row_value:
  "normExercise_row E idle_row =
     Inr (JObj [(''date'', JStr ''2025-06-01''), (''moderate_min'', JNull),
                (''vigorous_min'', JNull), (''total_min'', JNum (Fin 0)),
                (''exercise_pct_goal'', JNum (Fin 0)), (''distance'', JNull),
                (''calories_active'', JNull), (''calories_total'', JNull)])"
  by (simp add: normExercise_row_def idle_row_def exercise_pct_def Let_def
      to_min_def total_minutes_def total_seconds_def or0_def arith_eval round_double_zero)

lemma short_walk_value:
  "field_of (normExercise_row E short_walk_row) ''total_min''
     = Inr (JNum (Fin (5404319552844595 / 18014398509481984)))"
proof -
  have "js_div (js_add (Fin 21) (Fin 0)) (Fin 60) = Fin (3152519739159347 / 9007199254740992)"
    by (simp add: arith_eval d035)
  then have "total_minutes (Some (Fin 21)) None = Some (Fin (5404319552844595 / 18014398509481984))"
    unfolding total_minutes_def total_seconds_def or0_def
    by (simp add: code_rounds_035 arith_eval del: js_div.simps round1.simps)
  then show ?thesis
    by (simp add: field_of_def normExercise_row_def short_walk_row_def Let_def)
qed

lemma short_walk_spec:
  "spec_round1 tie (js_div (js_add (Fin 21) (Fin 0)) (Fin 60))
     = Fin (3602879701896397 / 9007199254740992)"
proof -
  have "js_div (js_add (Fin 21) (Fin 0)) (Fin 60) = Fin (3152519739159347 / 9007199254740992)"
    by (simp add: arith_eval d035)
  then show ?thesis by (simp only: spec_rounds_035)
qed

text \<open>
  Claim C2, as stated, fails twice.  Where the sum of the seconds overflows (both sides
  finite, their sum \<^verbatim>\<open>Infinity\<close>) the guard \<^verbatim>\<open>Number.isFinite(totalS)\<close> makes
  \<open>total_min\<close> \<^verbatim>\<open>null\<close>.  And for 21 seconds the quotient is the binary64 value just
  below 0.35: \<^verbatim>\<open>toFixed(1)\<close> answers 0.3, and \<open>round(3.5) / 10\<close> is 0.4 whichever way a
  tie goes.
\<close>

theorem total_min_counterexample:
  "is_double big_seconds
   \<and> field_of (normExercise_row v8 overflow_row) ''total_min'' = Inr JNull
   \<and> field_of (normExercise_row v8 short_walk_row) ''total_min''
       = Inr (JNum (Fin (5404319552844595 / 18014398509481984)))
   \<and> spec_round1 HalfUp (js_div (js_add (Fin 21) (Fin 0)) (Fin 60))
       = Fin (3602879701896397 / 9007199254740992)
   \<and> spec_round1 HalfEven (js_div (js_add (Fin 21) (Fin 0)) (Fin 60))
       = Fin (3602879701896397 / 9007199254740992)
   \<and> spec_round1 HalfAway (js_div (js_add (Fin 21) (Fin 0)) (Fin 60))
       = Fin (3602879701896397 / 9007199254740992)
   \<and> field_of (normExercise_row v8 short_walk_row) ''total_min''
       \<noteq> Inr (JNum (spec_round1 HalfUp (js_div (js_add (Fin 21) (Fin 0)) (Fin 60))))"
proof -
  have "total_minutes (Some (Fin big_seconds)) (Some (Fin big_seconds)) = None"
    unfolding total_minutes_def total_seconds_def or0_def
    by (simp only: option.case big_seconds_sum Let_def isFinite_num.simps if_False)
  then have "field_of (normExercise_row v8 overflow_row) ''total_min'' = Inr JNull"
    by (simp add: field_of_def normExercise_row_def overflow_row_def Let_def)
  then show ?thesis
    by (simp only: big_seconds_double short_walk_value short_walk_spec) simp
qed

text \<open>
  Claim C2, amended.  For every raw Exercise record that is normalized, the two seconds
  values are summed first, an absent or non-numeric side counting as 0; when the sum is
  finite \<open>total_min\<close> is \<open>sum / 60\<close> rounded to the nearest tenth of its exact value (the
  larger magnitude on a tie, as \<^verbatim>\<open>toFixed(1)\<close> rounds), and when the sum overflows
  \<open>total_min\<close> is absent.
\<close>

theorem total_min_rule:
  "normExercise_row E r = Inr out \<Longrightarrow>
     optget out ''total_min'' =
       (let totalS = js_add (seconds_or_0 (optget r ''moderate_activity_seconds''))
                            (seconds_or_0 (optget r ''vigorous_activity_seconds''))
        in if isFinite_num totalS then JNum (tenth_rounded (js_div totalS (Fin 60)))
           else JNull)"
  by (simp add: normExercise_row_total total_minutes_def total_seconds_def or0_numOrNull Let_def
      round1_tenth_rounded)

text \<open>The Exercise scenario: 1800 + 600 seconds are 40 minutes.\<close>

theorem total_min_rule_witness:
  "normExercise_row v8 exercise_row_example =
     Inr (JObj [(''date'', JStr ''2025-06-01''), (''moderate_min'', JNum (Fin 30)),
                (''vigorous_min'', JNum (Fin 10)), (''total_min'', JNum (Fin 40)),
                (''exercise_pct_goal'', JNum (Fin 160)), (''distance'', JNull),
                (''calories_active'', JNull), (''calories_total'', JNull)])
   \<and> js_add (seconds_or_0 (JNum (Fin 1800))) (seconds_or_0 (JNum (Fin 600))) = Fin 2400
   \<and> JNum (Fin 40) = JNum (tenth_rounded (js_div (Fin 2400) (Fin 60)))"
  using total_min_rule [OF exercise_row_example_value [of v8]]
  by (simp add: exercise_row_example_value seconds_or_0_def tenth_rounded_def arith_eval)

text \<open>
  Claim C9.  For every raw Exercise record in which both \<open>moderate_activity_seconds\<close>
  and \<open>vigorous_activity_seconds\<close> are absent or non-numeric, the normalized
  \<open>total_min\<close> is the number 0, not the absence marker, and \<open>exercise_pct_goal\<close> is 0
  whatever the goal is.
\<close>

theorem idle_total_is_zero:
  "normExercise_row E r = Inr out \<Longrightarrow>
   \<not> finite_number (optget r ''moderate_activity_seconds'') \<Longrightarrow>
   \<not> finite_number (optget r ''vigorous_activity_seconds'') \<Longrightarrow>
     optget out ''total_min'' = JNum (Fin 0) \<and> optget out ''exercise_pct_goal'' = JNum (Fin 0)"
proof -
  assume out: "normExercise_row E r = Inr out"
    and "\<not> finite_number (optget r ''moderate_activity_seconds'')"
    and "\<not> finite_number (optget r ''vigorous_activity_seconds'')"
  then have n: "numOrNull (optget r ''moderate_activity_seconds'') = None"
      "numOrNull (optget r ''vigorous_activity_seconds'') = None"
    by (simp_all add: numOrNull_None_iff)
  have t: "total_minutes None None = Some (Fin 0)"
    by (simp add: total_minutes_def total_seconds_def or0_def round_double_zero floor_one_div)
  have z: "round1 (js_div (js_mul (Fin 100) (Fin 0)) g) = Fin 0" if "js_pos g" for g
    using that by (cases g) (simp_all add: round_double_zero floor_one_div)
  have p: "exercise_pct (Some (Fin 0)) g = Fin 0" for g
    unfolding exercise_pct_def using z by (simp split: option.splits del: js_mul.simps)
  show ?thesis
    by (simp add: normExercise_row_total[OF out] normExercise_row_pct[OF out] n t p)
qed

text \<open>A record with a goal of 25 minutes, a non-numeric moderate side and no vigorous side.\<close>

theorem idle_total_is_zero_witness:
  "normExercise_row v8 idle_row =
     Inr (JObj [(''date'', JStr ''2025-06-01''), (''moderate_min'', JNull),
                (''vigorous_min'', JNull), (''total_min'', JNum (Fin 0)),
                (''exercise_pct_goal'', JNum (Fin 0)), (''distance'', JNull),
                (''calories_active'', JNull), (''calories_total'', JNull)])
   \<and> \<not> finite_number (optget idle_row ''moderate_activity_seconds'')
   \<and> \<not> finite_number (optget idle_row ''vigorous_activity_seconds'')
   \<and> to_min (numOrNull (optget idle_row ''intensity_time_goal_seconds'')) = Some (Fin 25)"
  using idle_total_is_zero [OF idle_row_value [of v8]]
  by (simp add: idle_row_value) (simp add: idle_row_def finite_number_def to_min_def arith_eval)

section \<open>Null elements\<close>

lemma normalize_singleton:
  "f r = Inr out \<Longrightarrow> normalize E f (JArr [r]) = Inr [out]"
  by (simp add: normalize_def rows_of_def sortAsc_def Let_def)

lemma null_rows:
  assumes "nullish r"
  shows "normSteps_row E r =
        Inr (JObj [(''date'', JStr []), (''steps'', JNull), (''step_goal'', JNull),
                   (''steps_pct_goal'', JNum (Fin 0))])"
    and "normStress_row E r = Inr (JObj [(''date'', JStr []), (''stress_avg'', JNull)])"
    and "normExercise_row E r =
        Inr (JObj [(''date'', JStr []), (''moderate_min'', JNull), (''vigorous_min'', JNull),
                   (''total_min'', JNum (Fin 0)), (''exercise_pct_goal'', JNum (Fin 0)),
                   (''distance'', JNull), (''calories_active'', JNull),
                   (''calories_total'', JNull)])"
    and "normSleep_row E r =
        Inr (JObj [(''date'', JStr []), (''total_sleep_hours'', JNull),
                   (''deep_sleep_hours'', JNull), (''light_sleep_hours'', JNull),
                   (''rem_sleep_hours'', JNull), (''awake_hours'', JNull)])"
  using assms
  by (cases r rule: nullish.cases;
      simp add: normSteps_row_def normStress_row_def normExercise_row_def normSleep_row_def
        steps_pct_def exercise_pct_def Let_def to_min_def total_minutes_def total_seconds_def
        or0_def round_double_zero floor_one_div)+

text \<open>
  Claim C10.  An element of the input sequence that is \<^verbatim>\<open>null\<close> or \<^verbatim>\<open>undefined\<close>
  raises no error in any of the four normalizers: it is normalized to the record whose
  date is the empty string, whose coerced numeric fields are all absent and whose
  percentage field, where the metric has one, is 0.  (The derived \<open>total_min\<close> of
  Exercise is then the number 0.)
\<close>

theorem null_element_normalized:
  "nullish r \<longrightarrow>
     (normSteps_row E r =
        Inr (JObj [(''date'', JStr []), (''steps'', JNull), (''step_goal'', JNull),
                   (''steps_pct_goal'', JNum (Fin 0))])
      \<and> normStress_row E r = Inr (JObj [(''date'', JStr []), (''stress_avg'', JNull)])
      \<and> normExercise_row E r =
        Inr (JObj [(''date'', JStr []), (''moderate_min'', JNull), (''vigorous_min'', JNull),
                   (''total_min'', JNum (Fin 0)), (''exercise_pct_goal'', JNum (Fin 0)),
                   (''distance'', JNull), (''calories_active'', JNull),
                   (''calories_total'', JNull)])
      \<and> normSleep_row E r =
        Inr (JObj [(''date'', JStr []), (''total_sleep_hours'', JNull),
                   (''deep_sleep_hours'', JNull), (''light_sleep_hours'', JNull),
                   (''rem_sleep_hours'', JNull), (''awake_hours'', JNull)]))
   \<and> (normSteps E (JArr [r]) =
        Inr [JObj [(''date'', JStr []), (''steps'', JNull), (''step_goal'', JNull),
                   (''steps_pct_goal'', JNum (Fin 0))]]
      \<and> normStress E (JArr [r]) = Inr [JObj [(''date'', JStr []), (''stress_avg'', JNull)]]
      \<and> normExercise E (JArr [r]) =
        Inr [JObj [(''date'', JStr []), (''moderate_min'', JNull), (''vigorous_min'', JNull),
                   (''total_min'', JNum (Fin 0)), (''exercise_pct_goal'', JNum (Fin 0)),
                   (''distance'', JNull), (''calories_active'', JNull),
                   (''calories_total'', JNull)]]
      \<and> normSleep E (JArr [r]) =
        Inr [JObj [(''date'', JStr []), (''total_sleep_hours'', JNull),
                   (''deep_sleep_hours'', JNull), (''light_sleep_hours'', JNull),
                   (''rem_sleep_hours'', JNull), (''awake_hours'', JNull)]])"
  by (simp add: normSteps_def normStress_def normExercise_def normSleep_def
      normalize_singleton null_rows)

text \<open>The arrays \<^verbatim>\<open>[null]\<close> and \<^verbatim>\<open>[undefined]\<close>.\<close>

theorem null_element_normalized_witness:
  "nullish JNull \<and> nullish JUndefined
   \<and> normSteps v8 (JArr [JNull]) =
        Inr [JObj [(''date'', JStr []), (''steps'', JNull), (''step_goal'', JNull),
                   (''steps_pct_goal'', JNum (Fin 0))]]
   \<and> normExercise v8 (JArr [JUndefined]) =
        Inr [JObj [(''date'', JStr []), (''moderate_min'', JNull), (''vigorous_min'', JNull),
                   (''total_min'', JNum (Fin 0)), (''exercise_pct_goal'', JNum (Fin 0)),
                   (''distance'', JNull), (''calories_active'', JNull),
                   (''calories_total'', JNull)]]"
  using null_element_normalized [of JNull v8] null_element_normalized [of JUndefined v8]
  by simp

section \<open>Totality of the normalizers\<close>

lemma toDay_scalar: "scalar d \<Longrightarrow> \<exists>s. toDay E d = Inr (DStr s)"
  by (cases d) (auto simp: scalar_def string_slice_def)

lemma normSteps_row_scalar:
  "scalar (optget r ''date'') \<Longrightarrow> \<exists>out. normSteps_row E r = Inr out \<and> string_dated out"
  using toDay_scalar[of "optget r ''date''" E]
  by (auto simp: normSteps_row_def Let_def string_dated_def)

lemma normStress_row_scalar:
  "scalar (optget r ''date'') \<Longrightarrow> \<exists>out. normStress_row E r = Inr out \<and> string_dated out"
  using toDay_scalar[of "optget r ''date''" E]
  by (auto simp: normStress_row_def Let_def string_dated_def)

lemma normExercise_row_scalar:
  "scalar (optget r ''date'') \<Longrightarrow> \<exists>out. normExercise_row E r = Inr out \<and> string_dated out"
  using toDay_scalar[of "optget r ''date''" E]
  by (auto simp: normExercise_row_def Let_def string_dated_def)

lemma normSleep_row_scalar:
  "scalar (optget r ''date'') \<Longrightarrow> \<exists>out. normSleep_row E r = Inr out \<and> string_dated out"
  using toDay_scalar[of "optget r ''date''" E]
  by (auto simp: normSleep_row_def Let_def string_dated_def)

lemma map_rows_ok:
  "list_all (\<lambda>r. \<exists>out. f r = Inr out \<and> P out) xs \<Longrightarrow>
     \<exists>ys. map_rows f xs = Inr ys \<and> list_all P ys"
  by (induction xs) auto

lemma is_stringE:
  assumes "is_string v"
  obtains s where "v = JStr s"
  using assms by (cases v) auto

lemma sort_key_string_dated: "string_dated a \<Longrightarrow> \<not> throws (sort_key E a)"
  by (auto simp: string_dated_def sort_key_def getprop_def day_text_def throws_def
      elim!: is_stringE)

lemma sortAsc_ok:
  assumes "list_all string_dated ys"
  shows "\<not> throws (sortAsc E ys)"
proof -
  have "\<not> list_ex (\<lambda>a. throws (sort_key E a)) (filter (\<lambda>a. a \<noteq> JUndefined) ys)"
    using assms by (auto simp: list_ex_iff list_all_iff sort_key_string_dated)
  then show ?thesis by (simp add: sortAsc_def throws_def Let_def)
qed

lemma normalize_ok:
  assumes "\<And>r. scalar (optget r ''date'') \<Longrightarrow> \<exists>out. f r = Inr out \<and> string_dated out"
    and "scalar_dates xs"
  shows "\<not> throws (normalize E f (JArr xs))"
proof -
  have "list_all (\<lambda>r. \<exists>out. f r = Inr out \<and> string_dated out) xs"
    using assms by (auto simp: scalar_dates_def list_all_iff)
  then obtain ys where "map_rows f xs = Inr ys" "list_all string_dated ys"
    using map_rows_ok by blast
  then show ?thesis
    using sortAsc_ok[of ys E] by (simp add: normalize_def rows_of_def)
qed

lemma normalize_falsy: "\<not> truthy rows \<Longrightarrow> normalize E f rows = Inr []"
  by (simp add: normalize_def rows_of_def sortAsc_def Let_def)

text \<open>
  On a falsy input every normalizer answers the empty sequence, and on an array whose
  elements have an absent or scalar date it throws nothing.
\<close>

lemma normalizers_total_on_scalar_dates:
  "(\<not> truthy rows \<longrightarrow>
      normSteps E rows = Inr [] \<and> normStress E rows = Inr []
      \<and> normExercise E rows = Inr [] \<and> normSleep E rows = Inr [])
   \<and> (scalar_dates xs \<longrightarrow>
      \<not> throws (normSteps E (JArr xs)) \<and> \<not> throws (normStress E (JArr xs))
      \<and> \<not> throws (normExercise E (JArr xs)) \<and> \<not> throws (normSleep E (JArr xs)))"
  by (simp add: normSteps_def normStress_def normExercise_def normSleep_def normalize_falsy
      normalize_ok normSteps_row_scalar normStress_row_scalar normExercise_row_scalar
      normSleep_row_scalar)

text \<open>
  An input that is neither falsy nor an array has no \<^verbatim>\<open>map\<close> method.  (The caller
  \<^verbatim>\<open>fetchAll\<close> hands over an array always, by \<^verbatim>\<open>Array.isArray\<close>.)
\<close>

lemma non_array_input_throws:
  "normSteps E (JNum (Fin 5)) = Inl TypeError
   \<and> normStress E (JStr ''abc'') = Inl TypeError
   \<and> normExercise E (JObj []) = Inl TypeError
   \<and> normSleep E (JBool True) = Inl TypeError"
  by (simp add: normSteps_def normStress_def normExercise_def normSleep_def normalize_def
      rows_of_def)

text \<open>
  Claim C8 says that every normalizer answers a value for any input whatsoever and never
  throws.  The code on the array \<^verbatim>\<open>[{"date": {"slice": 1}}]\<close>: the date is truthy,
  \<^verbatim>\<open>d.slice?.(0, 10)\<close> guards against a missing \<^verbatim>\<open>slice\<close> only and calls the number 1,
  and each of the four normalizers throws a \<^verbatim>\<open>TypeError\<close>.
\<close>

theorem unsliceable_date_throws:
  "normSteps v8 (JArr [unsliceable_row]) = Inl TypeError
   \<and> normStress v8 (JArr [unsliceable_row]) = Inl TypeError
   \<and> normExercise v8 (JArr [unsliceable_row]) = Inl TypeError
   \<and> normSleep v8 (JArr [unsliceable_row]) = Inl TypeError"
  by (simp add: normSteps_def normStress_def normExercise_def normSleep_def normalize_def
      rows_of_def normSteps_row_def normStress_row_def normExercise_row_def normSleep_row_def
      unsliceable_row_def Let_def)

section \<open>The data-model invariant\<close>

lemma big_seconds_times_100: "js_mul (Fin 100) (Fin big_seconds) = PInf"
  using binade_eqI[of 1029 "100 * 2 ^ 1023"]
  by (simp add: big_seconds_def round_double_def Let_def)

text \<open>
  Claim C3 says that every normalized record has a string for its date and finite
  numbers or the absence marker for its numeric fields.  The code at two inputs: a date
  that is an array has a \<^verbatim>\<open>slice\<close> method and comes out of \<^verbatim>\<open>toDay\<close> as an array;
  and \<^verbatim>\<open>100 * steps\<close> overflows for a finite \<open>steps\<close>, which makes \<open>steps_pct_goal\<close>
  \<^verbatim>\<open>Infinity\<close> (no \<^verbatim>\<open>Number.isFinite\<close> guards the percentage, as one guards
  \<open>total_min\<close>).
\<close>

theorem invariant_broken_by_array_date:
  "normSteps v8 (JArr [array_date_row]) =
     Inr [JObj [(''date'', JArr [JNum (Fin 2025), JNum (Fin 6), JNum (Fin 1)]),
                (''steps'', JNum (Fin 5000)), (''step_goal'', JNum (Fin 10000)),
                (''steps_pct_goal'', JNum (Fin 50))]]
   \<and> is_double big_seconds
   \<and> field_of (normSteps_row v8 huge_steps_row) ''steps_pct_goal'' = Inr (JNum PInf)"
proof -
  have "steps_pct (Some (Fin big_seconds)) (Some (Fin 1)) = PInf"
    unfolding steps_pct_def
    by (simp add: big_seconds_times_100 del: js_mul.simps)
  then have "field_of (normSteps_row v8 huge_steps_row) ''steps_pct_goal'' = Inr (JNum PInf)"
    by (simp add: field_of_def normSteps_row_def huge_steps_row_def Let_def)
  moreover have "normSteps v8 (JArr [array_date_row]) =
     Inr [JObj [(''date'', JArr [JNum (Fin 2025), JNum (Fin 6), JNum (Fin 1)]),
                (''steps'', JNum (Fin 5000)), (''step_goal'', JNum (Fin 10000)),
                (''steps_pct_goal'', JNum (Fin 50))]]"
    by (simp add: normSteps_def normalize_singleton normSteps_row_def array_date_row_def
        steps_pct_def Let_def arith_eval)
  ultimately show ?thesis by (simp add: big_seconds_double)
qed

section \<open>Sorting\<close>

lemma tie_compare:
  "compare_fn v8 tie_first tie_second = Inr (- 1)"
  "compare_fn v8 tie_second tie_first = Inr (- 1)"
  by (simp_all add: compare_fn_def sort_key_def getprop_def day_text_def tie_first_def
      tie_second_def)

lemma tie_keys:
  "\<not> throws (sort_key v8 tie_first)" "\<not> throws (sort_key v8 tie_second)"
  by (simp_all add: sort_key_def getprop_def day_text_def tie_first_def tie_second_def
      throws_def)

lemma v8_array_sort: "array_sort v8 = v8_sort"
  by (simp add: v8_def)

lemma tie_defined: "tie_first \<noteq> JUndefined" "tie_second \<noteq> JUndefined"
  by (simp_all add: tie_first_def tie_second_def)

lemma tie_sorted:
  "sortAsc v8 [tie_first, tie_second] = Inr [tie_second, tie_first]"
  "sortAsc v8 [tie_second, tie_first] = Inr [tie_first, tie_second]"
  by (simp_all add: sortAsc_def tie_defined tie_keys tie_compare v8_array_sort v8_sort_def Let_def)

text \<open>
  Claim C4 says that records with equal dates keep their input order.  The comparison
  function never answers 0: for two records of the same day it answers -1 in both
  directions, and the sort of V8 takes the pair for a descending run and reverses it.
\<close>

theorem ties_reversed_by_sort:
  "sortAsc v8 [tie_first, tie_second] = Inr [tie_second, tie_first]
   \<and> tie_first \<noteq> tie_second
   \<and> optget tie_first ''date'' = optget tie_second ''date''"
  by (simp add: tie_sorted) (simp add: tie_first_def tie_second_def)

text \<open>
  Claim C5 says that sorting twice gives what sorting once gives.  On the two records of
  the same day each sort swaps them, so the second sort restores the input order.
\<close>

theorem sort_twice_differs:
  "sortAsc v8 [tie_first, tie_second] = Inr [tie_second, tie_first]
   \<and> sortAsc v8 [tie_second, tie_first] = Inr [tie_first, tie_second]
   \<and> [tie_first, tie_second] \<noteq> [tie_second, tie_first]"
  by (simp add: tie_sorted) (simp add: tie_first_def tie_second_def)

section \<open>The range filter\<close>

lemma filter_rows_total:
  "list_all (\<lambda>x. p x = Inr (q x)) xs \<Longrightarrow> filter_rows p xs = Inr (filter q xs)"
  by (induction xs) auto

lemma take_10_empty_iff: "take 10 s = [] \<longleftrightarrow> s = []"
  by (cases s) simp_all

lemma inRange_string:
  "inRange E (JStr d) (JStr start) (JStr end) =
     Inr (in_window (take 10 start) (take 10 end) (take 10 d))"
  by (auto simp: inRange_def in_window_def js_less_def js_greater_def day_text_def
      take_10_empty_iff not_less)

lemma inRange_record:
  "is_string (optget r ''date'') \<Longrightarrow>
     inRange E (optget r ''date'') (JStr start) (JStr end) =
       Inr (in_window (take 10 start) (take 10 end) (day_key r))"
  by (auto elim!: is_stringE simp: inRange_string day_key_def)

text \<open>
  Claim C6.  In explicit-range mode, active when the custom range is switched on and its
  start or end is not empty, the filter keeps a record of a series (records dated by
  strings) if and only if its day key is not empty, the start is empty or the day key is
  at or after it, and the end is empty or the day key is at or before it, by string
  comparison of day keys.
\<close>

theorem explicit_range_filter:
  assumes "useCustomRange w"
    and "customStart w \<noteq> [] \<or> customEnd w \<noteq> []"
    and "list_all (\<lambda>r. is_string (optget r ''date'')) arr"
  shows "filterByDays E c w arr =
           Inr (filter (\<lambda>r. in_window (take 10 (customStart w)) (take 10 (customEnd w))
                                (day_key r)) arr)"
proof (cases "arr = []")
  case True
  then show ?thesis by (simp add: filterByDays_def)
next
  case False
  have "list_all (\<lambda>r. inRange E (optget r ''date'') (JStr (customStart w)) (JStr (customEnd w))
          = Inr (in_window (take 10 (customStart w)) (take 10 (customEnd w)) (day_key r))) arr"
    using assms(3) by (auto simp: list_all_iff inRange_record)
  then show ?thesis
    using False assms(1,2) by (simp add: filterByDays_def filter_rows_total)
qed

text \<open>
  The scenario: the series dated 2025-06-01 to 2025-06-10, filtered from 2025-06-03 to
  2025-06-05, gives exactly the three records of 06-03, 06-04 and 06-05.
\<close>

theorem explicit_range_filter_witness:
  "useCustomRange june_window
   \<and> customStart june_window = ''2025-06-03'' \<and> customEnd june_window = ''2025-06-05''
   \<and> list_all (\<lambda>r. is_string (optget r ''date'')) june_series
   \<and> filterByDays v8 utc_noon june_window june_series =
       Inr [dated ''2025-06-03'', dated ''2025-06-04'', dated ''2025-06-05'']"
proof -
  have 1: "useCustomRange june_window"
    and 2: "customStart june_window \<noteq> [] \<or> customEnd june_window \<noteq> []"
    by (simp_all add: june_window_def)
  have 3: "list_all (\<lambda>r. is_string (optget r ''date'')) june_series"
    by (simp add: june_series_def dated_def)
  have k: "day_key (dated d) = take 10 d" for d
    by (simp add: day_key_def dated_def)
  have "filter (\<lambda>r. in_window (take 10 (customStart june_window))
                 (take 10 (customEnd june_window)) (day_key r)) june_series =
        [dated ''2025-06-03'', dated ''2025-06-04'', dated ''2025-06-05'']"
    by (simp add: june_series_def june_window_def in_window_def k)
  then show ?thesis
    using explicit_range_filter [OF 1 2 3, of v8 utc_noon] 1 3
    by (simp add: june_window_def)
qed

lemma iso_examples:
  "iso_date 1751400000000 = ''2025-07-01''"
  "iso_date 1748808000000 = ''2025-06-01''"
  "iso_date 1748833200000 = ''2025-06-02''"
  by code_simp+

lemma pacific_cut: "cutISO pacific_evening 30 = Inr ''2025-06-02''"
  by (simp add: cutISO_def setDate_back_def pacific_evening_def msPerDay_def Let_def iso_examples)

text \<open>
  Claim C7 says that in relative mode a record dated exactly \<open>N\<close> days before today is
  kept.  The code moves the local date back by \<open>N\<close> days and then prints the date in
  UTC: in the evening of 2025-07-01 on the Pacific coast the day 30 days back is
  2025-06-01, the cutoff printed is 2025-06-02, and the record of 2025-06-01 is dropped.
\<close>

theorem cutoff_one_day_late:
  "iso_date (now pacific_evening + offset_at_utc pacific_evening (now pacific_evening))
     = ''2025-07-01''
   \<and> iso_date (now pacific_evening + offset_at_utc pacific_evening (now pacific_evening)
                - 30 * msPerDay) = ''2025-06-01''
   \<and> filterByDays v8 pacific_evening last_30_days [dated ''2025-06-01'', dated ''2025-06-02'']
     = Inr [dated ''2025-06-02'']"
proof -
  have "filterByDays v8 pacific_evening last_30_days [dated ''2025-06-01'', dated ''2025-06-02'']
     = Inr [dated ''2025-06-02'']"
    by (simp add: filterByDays_def last_30_days_def pacific_cut on_or_after_def dated_def
        js_less_def day_text_def)
  then show ?thesis
    by (simp add: pacific_evening_def msPerDay_def iso_examples)
qed

end
